theory Spec2Isabelle
  imports Complex_Main "HOL-Library.Log_Nat"
begin

section \<open>Python values, errors and sequencing\<close>

text \<open>
  The functions of \<^verbatim>\<open>backend/server.py\<close> that carry logic are
  \<^verbatim>\<open>calculate_invoice_totals\<close>, \<^verbatim>\<open>number_to_words\<close> and the numbering
  part of \<^verbatim>\<open>create_invoice\<close>. Every exception the Python can raise in them is a
  value \<open>Inl e\<close> of the result type \<open>py_error + 'a\<close>.
\<close>

datatype py_error = TypeError | ValueError | OverflowError | IndexError | ZeroDivisionError

definition and_then :: "py_error + 'a \<Rightarrow> ('a \<Rightarrow> py_error + 'b) \<Rightarrow> py_error + 'b" where
  "and_then m f = (case m of Inl e \<Rightarrow> Inl e | Inr x \<Rightarrow> f x)"

text \<open>
  A Python \<^verbatim>\<open>float\<close> is an IEEE 754 binary64 number. A finite one is kept as
  the rational number it denotes (the two zeros are identified: the program never
  divides by a computed value and compares with \<^verbatim>\<open>==\<close> only). Every operation
  rounds its exact result with \<open>round64\<close> below; the floats a request can carry are the
  representable ones, and the theorems hold for any rational in their place.
\<close>

datatype float = Fin rat | PInf | NInf | NaN

datatype py_value = PyInt int | PyFloat float | PyStr string | PyNone

section \<open>Strings\<close>

text \<open>
  A \<open>char\<close> stands for the code point of the same number (Latin-1).
  \<open>py_isspace\<close> lists the code points below 256 for which \<^verbatim>\<open>str.isspace\<close>
  holds; \<^verbatim>\<open>str.strip()\<close> removes them at both ends.
\<close>

definition py_isspace :: "char \<Rightarrow> bool" where
  "py_isspace c = (c \<in> set [CHR 0x09, CHR 0x0A, CHR 0x0B, CHR 0x0C, CHR 0x0D,
     CHR 0x1C, CHR 0x1D, CHR 0x1E, CHR 0x1F, CHR 0x20, CHR 0x85, CHR 0xA0])"

definition strip :: "string \<Rightarrow> string" where
  "strip s = rev (dropWhile py_isspace (rev (dropWhile py_isspace s)))"

text \<open>\<^verbatim>\<open>xs[i]\<close>: a negative index counts from the end, anything outside raises.\<close>

definition py_index :: "'a list \<Rightarrow> int \<Rightarrow> py_error + 'a" where
  "py_index xs i =
     (if 0 \<le> i \<and> i < int (length xs) then Inr (xs ! nat i)
      else if i < 0 \<and> - int (length xs) \<le> i then Inr (xs ! nat (int (length xs) + i))
      else Inl IndexError)"

text \<open>
  \<^verbatim>\<open>int(s)\<close> for a string, base 10: white space at both ends is skipped, one sign
  is allowed, then decimal digits, where a single underscore may stand between two
  digits. The white space of \<^verbatim>\<open>int\<close> is narrower than that of \<^verbatim>\<open>str.strip\<close>:
  the separators \<open>0x1C\<close> to \<open>0x1F\<close> are not skipped, so that
  \<^verbatim>\<open>int("\x1f5")\<close> raises \<^verbatim>\<open>ValueError\<close>. Interpreters from CPython 3.11 on
  refuse more than \<open>int_max_str_digits\<close> digits.
\<close>

definition int_isspace :: "char \<Rightarrow> bool" where
  "int_isspace c = (c \<in> set [CHR 0x09, CHR 0x0A, CHR 0x0B, CHR 0x0C, CHR 0x0D, CHR 0x20,
     CHR 0x85, CHR 0xA0])"

definition int_strip :: "string \<Rightarrow> string" where
  "int_strip s = rev (dropWhile int_isspace (rev (dropWhile int_isspace s)))"

definition int_max_str_digits :: nat where
  "int_max_str_digits = 4300"

definition is_digit :: "char \<Rightarrow> bool" where
  "is_digit c = (c \<in> set ''0123456789'')"

definition digit_val :: "char \<Rightarrow> int" where
  "digit_val c = int (of_char c) - 48"

fun parse_digits :: "int \<Rightarrow> bool \<Rightarrow> string \<Rightarrow> int option" where
  "parse_digits acc prev [] = (if prev then Some acc else None)"
| "parse_digits acc prev (c # cs) =
     (if is_digit c then parse_digits (acc * 10 + digit_val c) True cs
      else if c = CHR ''_'' \<and> prev then parse_digits acc False cs
      else None)"

definition parse_unsigned :: "string \<Rightarrow> py_error + int" where
  "parse_unsigned s =
     (if int_max_str_digits < length (filter is_digit s) then Inl ValueError
      else case parse_digits 0 False s of None \<Rightarrow> Inl ValueError | Some n \<Rightarrow> Inr n)"

definition py_int_of_str :: "string \<Rightarrow> py_error + int" where
  "py_int_of_str s =
     (case int_strip s of
        [] \<Rightarrow> Inl ValueError
      | c # cs \<Rightarrow>
          if c = CHR ''-'' then and_then (parse_unsigned cs) (\<lambda>n. Inr (- n))
          else if c = CHR ''+'' then parse_unsigned cs
          else parse_unsigned (c # cs))"

text \<open>
  \<^verbatim>\<open>int(x)\<close> for a float truncates towards zero; it raises \<^verbatim>\<open>ValueError\<close> on a
  NaN and \<^verbatim>\<open>OverflowError\<close> on an infinity. \<^verbatim>\<open>int(None)\<close> raises
  \<^verbatim>\<open>TypeError\<close>.
\<close>

definition trunc :: "rat \<Rightarrow> int" where
  "trunc x = (if 0 \<le> x then \<lfloor>x\<rfloor> else \<lceil>x\<rceil>)"

fun py_int :: "py_value \<Rightarrow> py_error + int" where
  "py_int (PyInt n) = Inr n"
| "py_int (PyFloat (Fin x)) = Inr (trunc x)"
| "py_int (PyFloat NaN) = Inl ValueError"
| "py_int (PyFloat PInf) = Inl OverflowError"
| "py_int (PyFloat NInf) = Inl OverflowError"
| "py_int (PyStr s) = py_int_of_str s"
| "py_int PyNone = Inl TypeError"

section \<open>Float arithmetic\<close>

text \<open>
  \<open>round_half_even\<close> is the nearest integer with ties to the even one: the rule of
  IEEE 754 rounding and of Python's one-argument \<^verbatim>\<open>round\<close>.
\<close>

definition round_half_even :: "rat \<Rightarrow> int" where
  "round_half_even x =
     (let f = \<lfloor>x\<rfloor>; d = x - of_int f
      in if d < 1 / 2 then f else if 1 / 2 < d then f + 1 else if even f then f else f + 1)"

text \<open>\<open>ilog2 x\<close> is \<open>\<lfloor>log\<^sub>2 \<bar>x\<bar>\<rfloor>\<close> for \<open>x \<noteq> 0\<close>, computed from the bit lengths.\<close>

definition ilog2 :: "rat \<Rightarrow> int" where
  "ilog2 x =
     (case quotient_of \<bar>x\<bar> of (p, q) \<Rightarrow>
        let d = bitlen p - bitlen q in if 2 powi d \<le> \<bar>x\<bar> then d else d - 1)"

text \<open>
  binary64 has 53 significant bits and its smallest positive number is \<open>2\<^sup>-\<^sup>1\<^sup>0\<^sup>7\<^sup>4\<close>:
  the spacing of the floats around \<open>x\<close> is \<open>2 powi ulp_exp x\<close>. \<open>round64\<close> is
  round-to-nearest, ties to even, overflowing to an infinity from \<open>2\<^sup>1\<^sup>0\<^sup>2\<^sup>4\<close> on.
\<close>

definition ulp_exp :: "rat \<Rightarrow> int" where
  "ulp_exp x = max (ilog2 x - 52) (- 1074)"

definition round64 :: "rat \<Rightarrow> float" where
  "round64 x =
     (if x = 0 then Fin 0
      else let e = ulp_exp x; y = of_int (round_half_even (x / 2 powi e)) * 2 powi e
           in if 2 ^ 1024 \<le> \<bar>y\<bar> then (if 0 < x then PInf else NInf) else Fin y)"

fun fneg :: "float \<Rightarrow> float" where
  "fneg (Fin x) = Fin (- x)"
| "fneg PInf = NInf"
| "fneg NInf = PInf"
| "fneg NaN = NaN"

fun fadd :: "float \<Rightarrow> float \<Rightarrow> float" where
  "fadd (Fin x) (Fin y) = round64 (x + y)"
| "fadd (Fin x) PInf = PInf"
| "fadd (Fin x) NInf = NInf"
| "fadd PInf (Fin y) = PInf"
| "fadd PInf PInf = PInf"
| "fadd PInf NInf = NaN"
| "fadd NInf (Fin y) = NInf"
| "fadd NInf NInf = NInf"
| "fadd NInf PInf = NaN"
| "fadd NaN b = NaN"
| "fadd a NaN = NaN"

definition fsub :: "float \<Rightarrow> float \<Rightarrow> float" where
  "fsub a b = fadd a (fneg b)"

definition inf_times :: "float \<Rightarrow> rat \<Rightarrow> float" where
  "inf_times a x = (if x = 0 then NaN else if 0 < x then a else fneg a)"

fun fmul :: "float \<Rightarrow> float \<Rightarrow> float" where
  "fmul (Fin x) (Fin y) = round64 (x * y)"
| "fmul (Fin x) PInf = inf_times PInf x"
| "fmul (Fin x) NInf = inf_times NInf x"
| "fmul PInf (Fin y) = inf_times PInf y"
| "fmul NInf (Fin y) = inf_times NInf y"
| "fmul PInf PInf = PInf"
| "fmul PInf NInf = NInf"
| "fmul NInf PInf = NInf"
| "fmul NInf NInf = PInf"
| "fmul NaN b = NaN"
| "fmul a NaN = NaN"

text \<open>Python raises on a zero divisor, whatever the dividend.\<close>

fun fdiv :: "float \<Rightarrow> float \<Rightarrow> py_error + float" where
  "fdiv a (Fin y) =
     (if y = 0 then Inl ZeroDivisionError
      else Inr (case a of Fin x \<Rightarrow> round64 (x / y) | NaN \<Rightarrow> NaN | _ \<Rightarrow> inf_times a y))"
| "fdiv a NaN = Inr NaN"
| "fdiv (Fin x) b = Inr (Fin 0)"
| "fdiv a b = Inr NaN"

text \<open>
  An \<^verbatim>\<open>int\<close> operand of a float operation is converted first, correctly rounded,
  and the conversion raises \<^verbatim>\<open>OverflowError\<close> when the integer is too large.
\<close>

definition py_float_of_int :: "int \<Rightarrow> py_error + float" where
  "py_float_of_int n =
     (case round64 (of_int n) of Fin y \<Rightarrow> Inr (Fin y) | _ \<Rightarrow> Inl OverflowError)"

text \<open>\<^verbatim>\<open>a == b\<close> on floats: a NaN equals nothing.\<close>

definition py_float_eq :: "float \<Rightarrow> float \<Rightarrow> bool" where
  "py_float_eq a b = (a \<noteq> NaN \<and> a = b)"

text \<open>\<^verbatim>\<open>abs(a)\<close> and \<^verbatim>\<open>a < b\<close> on floats: a comparison with a NaN is false.\<close>

fun py_float_abs :: "float \<Rightarrow> float" where
  "py_float_abs (Fin x) = Fin \<bar>x\<bar>"
| "py_float_abs NaN = NaN"
| "py_float_abs a = PInf"

fun py_float_less :: "float \<Rightarrow> float \<Rightarrow> bool" where
  "py_float_less (Fin x) (Fin y) = (x < y)"
| "py_float_less NaN b = False"
| "py_float_less a NaN = False"
| "py_float_less a PInf = (a \<noteq> PInf)"
| "py_float_less NInf b = (b \<noteq> NInf)"
| "py_float_less a b = False"

text \<open>
  \<^verbatim>\<open>round(x)\<close> gives an \<^verbatim>\<open>int\<close> and raises on a NaN or an infinity.
  \<^verbatim>\<open>round(x, 2)\<close> gives the float nearest to the decimal with two fractional digits
  that is nearest to the exact value of \<open>x\<close> (ties to the even digit); a NaN or an
  infinity is returned as it is.
\<close>

fun py_round :: "float \<Rightarrow> py_error + int" where
  "py_round (Fin x) = Inr (round_half_even x)"
| "py_round NaN = Inl ValueError"
| "py_round a = Inl OverflowError"

fun py_round2 :: "float \<Rightarrow> float" where
  "py_round2 (Fin x) = round64 (of_int (round_half_even (x * 100)) / 100)"
| "py_round2 a = a"

section \<open>calculate_invoice_totals\<close>

record product_item =
  name :: string
  quantity :: int
  unit_rate :: float
  discount_percentage :: float
  gst_rate :: float

record invoice_totals =
  total_taxable_value :: float
  total_cgst :: float
  total_sgst :: float
  total_tax :: float
  round_off :: float
  final_amount :: int

text \<open>
  One turn of the \<^verbatim>\<open>for\<close> loop over the three running totals
  \<^verbatim>\<open>(total_taxable_value, total_cgst, total_sgst)\<close>. The integer
  \<^verbatim>\<open>product.quantity\<close> is converted to a float where it meets
  \<^verbatim>\<open>product.unit_rate\<close> (twice in the source, with the same outcome \<open>q\<close>); the
  literals \<^verbatim>\<open>100\<close> and \<^verbatim>\<open>2\<close> convert exactly to \<open>Fin 100\<close> and \<open>Fin 2\<close>.
\<close>

definition add_product ::
  "product_item \<Rightarrow> float \<times> float \<times> float \<Rightarrow> py_error + float \<times> float \<times> float" where
  "add_product product acc =
     (case acc of (tv, tc, ts) \<Rightarrow>
        and_then (py_float_of_int (quantity product)) (\<lambda>q.
        and_then (fdiv (fmul (fmul q (unit_rate product)) (discount_percentage product))
                    (Fin 100)) (\<lambda>discount_amount.
        let taxable_value = fsub (fmul q (unit_rate product)) discount_amount in
        and_then (fdiv (gst_rate product) (Fin 2)) (\<lambda>cgst_rate.
        and_then (fdiv (gst_rate product) (Fin 2)) (\<lambda>sgst_rate.
        and_then (fdiv (fmul taxable_value cgst_rate) (Fin 100)) (\<lambda>cgst_amount.
        and_then (fdiv (fmul taxable_value sgst_rate) (Fin 100)) (\<lambda>sgst_amount.
          Inr (fadd tv taxable_value, fadd tc cgst_amount, fadd ts sgst_amount))))))))"

fun accumulate ::
  "product_item list \<Rightarrow> float \<times> float \<times> float \<Rightarrow> py_error + float \<times> float \<times> float" where
  "accumulate [] acc = Inr acc"
| "accumulate (product # products) acc =
     and_then (add_product product acc) (accumulate products)"

text \<open>The unrounded \<^verbatim>\<open>gross_total\<close> of the running totals.\<close>

definition gross_total :: "float \<times> float \<times> float \<Rightarrow> float" where
  "gross_total acc = (case acc of (tv, tc, ts) \<Rightarrow> fadd tv (fadd tc ts))"

definition finish_totals :: "float \<times> float \<times> float \<Rightarrow> py_error + invoice_totals" where
  "finish_totals acc =
     (case acc of (tv, tc, ts) \<Rightarrow>
        let tax = fadd tc ts; gross = fadd tv tax in
        and_then (py_round gross) (\<lambda>final.
        and_then (py_float_of_int final) (\<lambda>final_f.
        let off = fsub final_f gross in
        Inr \<lparr>total_taxable_value = py_round2 tv, total_cgst = py_round2 tc,
             total_sgst = py_round2 ts, total_tax = py_round2 tax,
             round_off = py_round2 off, final_amount = final\<rparr>)))"

definition calculate_invoice_totals :: "product_item list \<Rightarrow> py_error + invoice_totals" where
  "calculate_invoice_totals products =
     and_then (accumulate products (Fin 0, Fin 0, Fin 0)) finish_totals"

text \<open>
  The relation that the repository's test \<^verbatim>\<open>backend_test.py\<close> states of a created
  invoice: \<^verbatim>\<open>abs(total_tax - (total_cgst + total_sgst)) < 0.01\<close>, where the literal
  \<^verbatim>\<open>0.01\<close> is the float nearest to one hundredth.
\<close>

definition tax_calc_correct :: "invoice_totals \<Rightarrow> bool" where
  "tax_calc_correct t =
     py_float_less
       (py_float_abs (fsub (total_tax t) (fadd (total_cgst t) (total_sgst t))))
       (round64 (1 / 100))"

section \<open>number_to_words\<close>

definition ones :: "string list" where
  "ones = ['''', ''One'', ''Two'', ''Three'', ''Four'', ''Five'', ''Six'', ''Seven'',
           ''Eight'', ''Nine'']"

definition teens :: "string list" where
  "teens = [''Ten'', ''Eleven'', ''Twelve'', ''Thirteen'', ''Fourteen'', ''Fifteen'',
            ''Sixteen'', ''Seventeen'', ''Eighteen'', ''Nineteen'']"

definition tens :: "string list" where
  "tens = ['''', '''', ''Twenty'', ''Thirty'', ''Forty'', ''Fifty'', ''Sixty'', ''Seventy'',
           ''Eighty'', ''Ninety'']"

text \<open>
  \<^verbatim>\<open>convert_hundreds\<close> runs three guarded blocks over the pair of the local
  variables \<^verbatim>\<open>result\<close> and \<^verbatim>\<open>n\<close>, then strips the result.
\<close>

definition hundreds_block :: "string \<times> int \<Rightarrow> py_error + string \<times> int" where
  "hundreds_block st =
     (case st of (result, n) \<Rightarrow>
        if 100 \<le> n
        then and_then (py_index ones (n div 100))
               (\<lambda>w. Inr (result @ w @ '' Hundred '', n mod 100))
        else Inr (result, n))"

definition tens_block :: "string \<times> int \<Rightarrow> py_error + string \<times> int" where
  "tens_block st =
     (case st of (result, n) \<Rightarrow>
        if 20 \<le> n
        then and_then (py_index tens (n div 10)) (\<lambda>w. Inr (result @ w @ '' '', n mod 10))
        else if 10 \<le> n
        then and_then (py_index teens (n - 10)) (\<lambda>w. Inr (result @ w @ '' '', 0))
        else Inr (result, n))"

definition ones_block :: "string \<times> int \<Rightarrow> py_error + string \<times> int" where
  "ones_block st =
     (case st of (result, n) \<Rightarrow>
        if 0 < n
        then and_then (py_index ones n) (\<lambda>w. Inr (result @ w @ '' '', n))
        else Inr (result, n))"

definition convert_hundreds :: "int \<Rightarrow> py_error + string" where
  "convert_hundreds n =
     and_then (hundreds_block ('''', n)) (\<lambda>s1.
     and_then (tens_block s1) (\<lambda>s2.
     and_then (ones_block s2) (\<lambda>s3. Inr (strip (fst s3)))))"

text \<open>The body of the \<^verbatim>\<open>try\<close> block, with its three branches by magnitude.\<close>

definition words_below_lakh :: "int \<Rightarrow> py_error + string" where
  "words_below_lakh num =
     (let thousands = num div 1000; remainder = num mod 1000 in
      and_then (convert_hundreds thousands) (\<lambda>w.
      and_then (if 0 < remainder
                then and_then (convert_hundreds remainder)
                       (\<lambda>w2. Inr (w @ '' Thousand '' @ w2 @ '' ''))
                else Inr (w @ '' Thousand ''))
        (\<lambda>result. Inr (strip result @ '' Rupees Only''))))"

definition words_from_lakh :: "int \<Rightarrow> py_error + string" where
  "words_from_lakh num =
     (let lakhs = num div 100000; remainder = num mod 100000 in
      and_then (convert_hundreds lakhs) (\<lambda>w.
      and_then (if 1000 \<le> remainder
                then and_then (convert_hundreds (remainder div 1000))
                       (\<lambda>w2. Inr (w @ '' Lakh '' @ w2 @ '' Thousand '', remainder mod 1000))
                else Inr (w @ '' Lakh '', remainder))
        (\<lambda>(result, remainder).
      and_then (if 0 < remainder
                then and_then (convert_hundreds remainder) (\<lambda>w3. Inr (result @ w3 @ '' ''))
                else Inr result)
        (\<lambda>result. Inr (strip result @ '' Rupees Only'')))))"

definition number_to_words_try :: "py_value \<Rightarrow> py_error + string" where
  "number_to_words_try v =
     and_then (py_int v) (\<lambda>num.
       if num = 0 then Inr ''Zero Rupees Only''
       else if num < 1000
       then and_then (convert_hundreds num) (\<lambda>w. Inr (w @ '' Rupees Only''))
       else if num < 100000 then words_below_lakh num
       else words_from_lakh num)"

text \<open>The bare \<^verbatim>\<open>except:\<close> turns every exception of the body into the fixed string.\<close>

definition number_to_words :: "py_value \<Rightarrow> py_error + string" where
  "number_to_words v =
     (case number_to_words_try v of
        Inl e \<Rightarrow> Inr ''Amount calculation error''
      | Inr s \<Rightarrow> Inr s)"

section \<open>create_invoice\<close>

text \<open>
  The stored invoice, without the shop and customer snapshots, the generated id and the
  time stamps, none of which the numbering reads. The collection \<^verbatim>\<open>db.invoices\<close> is
  the list of the stored invoices, oldest first.
\<close>

record invoice =
  invoice_number :: string
  products :: "product_item list"
  totals :: invoice_totals
  amount_in_words :: string

text \<open>
  The store orders strings character by character by code point, a proper prefix before
  its extensions; \<^verbatim>\<open>find_one(sort=[("invoice_number", -1)])\<close> gives a document
  that is greatest in this order, and \<^verbatim>\<open>None\<close> on the empty collection.
\<close>

fun str_less :: "string \<Rightarrow> string \<Rightarrow> bool" where
  "str_less [] [] = False"
| "str_less [] (y # ys) = True"
| "str_less (x # xs) [] = False"
| "str_less (x # xs) (y # ys) =
     ((of_char x :: nat) < of_char y \<or> (x = y \<and> str_less xs ys))"

fun find_one_last :: "invoice list \<Rightarrow> invoice option" where
  "find_one_last [] = None"
| "find_one_last (d # ds) =
     (case find_one_last ds of
        None \<Rightarrow> Some d
      | Some m \<Rightarrow> if str_less (invoice_number m) (invoice_number d) then Some d else Some m)"

text \<open>\<^verbatim>\<open>s.replace(old, new)\<close>: every occurrence, left to right, without overlap.\<close>

function py_replace :: "string \<Rightarrow> string \<Rightarrow> string \<Rightarrow> string" where
  "py_replace s old new =
     (if old = [] then new @ concat (map (\<lambda>c. c # new) s)
      else if s = [] then []
      else if take (length old) s = old then new @ py_replace (drop (length old) s) old new
      else hd s # py_replace (tl s) old new)"
  by pat_completeness auto
termination
  by (relation "measure (\<lambda>(s, old, new). length s)") (auto simp: Suc_le_eq)

text \<open>The decimal text of an integer, as an f-string writes it.\<close>

definition digit_char :: "nat \<Rightarrow> char" where
  "digit_char d = char_of (48 + d)"

function digits_of :: "nat \<Rightarrow> string" where
  "digits_of n =
     (if n < 10 then [digit_char n] else digits_of (n div 10) @ [digit_char (n mod 10)])"
  by pat_completeness auto
termination
  by (relation "measure id") auto

definition py_str_of_int :: "int \<Rightarrow> py_error + string" where
  "py_str_of_int n =
     (let ds = digits_of (nat \<bar>n\<bar>)
      in if int_max_str_digits < length ds then Inl ValueError
         else Inr (if n < 0 then CHR ''-'' # ds else ds))"

definition next_invoice_number :: "invoice list \<Rightarrow> py_error + string" where
  "next_invoice_number db =
     and_then
       (case find_one_last db of
          Some last_invoice \<Rightarrow>
            and_then (py_int (PyStr (py_replace (invoice_number last_invoice) ''INV'' [])))
              (\<lambda>last_num. Inr (last_num + 1))
        | None \<Rightarrow> Inr 1)
       (\<lambda>next_num. and_then (py_str_of_int next_num) (\<lambda>s. Inr (''INV'' @ s)))"

definition create_invoice ::
  "product_item list \<Rightarrow> invoice list \<Rightarrow> py_error + invoice \<times> invoice list" where
  "create_invoice items db =
     and_then (next_invoice_number db) (\<lambda>number.
     and_then (calculate_invoice_totals items) (\<lambda>ts.
     and_then (number_to_words (PyInt (final_amount ts))) (\<lambda>words.
       let invoice_obj = \<lparr>invoice_number = number, products = items, totals = ts,
                          amount_in_words = words\<rparr>
       in Inr (invoice_obj, db @ [invoice_obj]))))"

text \<open>A sequence of requests, one after the other; the numbers handed out, in order.\<close>

fun create_invoices ::
  "product_item list list \<Rightarrow> invoice list \<Rightarrow> py_error + string list \<times> invoice list" where
  "create_invoices [] db = Inr ([], db)"
| "create_invoices (items # rest) db =
     and_then (create_invoice items db) (\<lambda>(inv, db').
     and_then (create_invoices rest db') (\<lambda>(numbers, db'').
       Inr (invoice_number inv # numbers, db'')))"

section \<open>Notions used in the proofs\<close>

text \<open>
  \<open>dyadic53 x\<close>: \<open>x\<close> is an integer of at most 53 bits times a power of two that is
  not below the smallest subnormal. \<open>rounded x\<close> is \<open>x\<close> rounded to 53 bits before the
  overflow test. A float can come out of the arithmetic when, if finite, it is a fixed
  point of \<open>round64\<close>.
\<close>

definition dyadic53 :: "rat \<Rightarrow> bool" where
  "dyadic53 x \<longleftrightarrow> (\<exists>m e. x = of_int m * 2 powi e \<and> \<bar>m\<bar> \<le> 2 ^ 53 \<and> - 1074 \<le> e)"

definition rounded :: "rat \<Rightarrow> rat" where
  "rounded x = of_int (round_half_even (x / 2 powi ulp_exp x)) * 2 powi ulp_exp x"

definition is_double :: "float \<Rightarrow> bool" where
  "is_double a = (case a of Fin y \<Rightarrow> round64 y = Fin y | _ \<Rightarrow> True)"

text \<open>A line item with the given quantity, unit rate, discount and GST rate.\<close>

definition line_item :: "int \<Rightarrow> rat \<Rightarrow> rat \<Rightarrow> rat \<Rightarrow> product_item" where
  "line_item q u d g =
     \<lparr>name = ''item'', quantity = q, unit_rate = Fin u, discount_percentage = Fin d,
      gst_rate = Fin g\<rparr>"

section \<open>Properties of number_to_words\<close>

lemma and_then_simps [simp]:
  "and_then (Inl e) f = Inl e"
  "and_then (Inr x) f = f x"
  by (simp_all add: and_then_def)

lemma words_zero: "number_to_words (PyInt 0) = Inr ''Zero Rupees Only''"
  by (simp add: number_to_words_def number_to_words_try_def)

lemma words_one_lakh: "number_to_words (PyInt 100000) = Inr ''One Lakh Rupees Only''"
  by code_simp

lemma words_123456:
  "number_to_words (PyInt 123456) =
     Inr ''One Lakh Twenty Three Thousand Four Hundred Fifty Six Rupees Only''"
  by code_simp

text \<open>
  C6: \<^verbatim>\<open>number_to_words\<close> returns exactly "Zero Rupees Only" for 0, exactly
  "One Lakh Rupees Only" for 100000 (the empty thousands segment is left out) and exactly
  "One Lakh Twenty Three Thousand Four Hundred Fifty Six Rupees Only" for 123456.
\<close>

theorem number_to_words_examples:
  "number_to_words (PyInt 0) = Inr ''Zero Rupees Only'' \<and>
   number_to_words (PyInt 100000) = Inr ''One Lakh Rupees Only'' \<and>
   number_to_words (PyInt 123456) =
     Inr ''One Lakh Twenty Three Thousand Four Hundred Fifty Six Rupees Only''"
  using words_zero words_one_lakh words_123456 by (intro conjI)

text \<open>
  The separator \<open>0x1F\<close> is white space for \<^verbatim>\<open>str.strip\<close> but not for
  \<^verbatim>\<open>int\<close>: a string that starts with it does not coerce.
\<close>

lemma py_int_separator:
  "py_int (PyStr [CHR 0x1F, CHR ''5'']) = Inl ValueError"
  "py_int (PyStr [CHR 0x1F, CHR ''-'', CHR ''5'']) = Inl ValueError"
  "py_int (PyStr '' -5 '') = Inr (- 5)"
  by (simp_all add: py_int_of_str_def int_strip_def int_isspace_def parse_unsigned_def
      is_digit_def digit_val_def int_max_str_digits_def)

text \<open>
  C7: \<^verbatim>\<open>number_to_words\<close> never passes an error on to its caller: on every input
  it returns a string, and when the input cannot be coerced to an integer that string is
  the fixed fallback "Amount calculation error".
\<close>

theorem number_to_words_never_raises:
  "(\<exists>s. number_to_words v = Inr s) \<and>
   (py_int v = Inl e \<longrightarrow> number_to_words v = Inr ''Amount calculation error'')"
  by (auto simp add: number_to_words_def number_to_words_try_def split: sum.splits)

theorem number_to_words_never_raises_witness:
  "py_int (PyStr [CHR 0x1F, CHR ''5'']) = Inl ValueError \<and>
   (\<exists>s. number_to_words (PyStr [CHR 0x1F, CHR ''5'']) = Inr s) \<and>
   number_to_words (PyStr [CHR 0x1F, CHR ''5'']) = Inr ''Amount calculation error''"
  using number_to_words_never_raises [of "PyStr [CHR 0x1F, CHR ''5'']" ValueError]
    py_int_separator(1)
  by simp

lemma py_index_beyond: "int (length xs) \<le> i \<Longrightarrow> py_index xs i = Inl IndexError"
  by (simp add: py_index_def)

lemma convert_hundreds_beyond:
  assumes "1000 \<le> n"
  shows "convert_hundreds n = Inl IndexError"
proof -
  from assms have "10 \<le> n div 100" by linarith
  then have "py_index ones (n div 100) = Inl IndexError"
    by (intro py_index_beyond) (simp add: ones_def)
  with assms show ?thesis
    by (simp add: convert_hundreds_def hundreds_block_def)
qed

lemma convert_hundreds_negative: "n < 0 \<Longrightarrow> convert_hundreds n = Inr []"
  by (simp add: convert_hundreds_def hundreds_block_def tens_block_def ones_block_def
      strip_def)

text \<open>
  C9: for every input that is (or coerces to) an integer of at least 100,000,000 the
  lakhs component is 1000 or more, the hundreds converter indexes \<^verbatim>\<open>ones\<close> out of
  range, the handler swallows the \<^verbatim>\<open>IndexError\<close>, and \<^verbatim>\<open>number_to_words\<close>
  returns "Amount calculation error".
\<close>

theorem number_to_words_from_ten_crore:
  assumes "py_int v = Inr num" and "100000000 \<le> num"
  shows "number_to_words v = Inr ''Amount calculation error''"
proof -
  from assms(2) have "1000 \<le> num div 100000" by linarith
  then have "convert_hundreds (num div 100000) = Inl IndexError"
    by (rule convert_hundreds_beyond)
  with assms show ?thesis
    by (simp add: number_to_words_def number_to_words_try_def words_from_lakh_def)
qed

theorem number_to_words_from_ten_crore_witness:
  "py_int (PyInt 100000000) = Inr 100000000 \<and> (100000000 :: int) \<le> 100000000 \<and>
   number_to_words (PyInt 100000000) = Inr ''Amount calculation error''"
  using number_to_words_from_ten_crore [of "PyInt 100000000" 100000000] by simp

text \<open>
  C10: for every input that coerces to a negative integer, every guard of the hundreds
  converter fails, it yields the empty string, and \<^verbatim>\<open>number_to_words\<close> returns
  " Rupees Only" (a leading space, no number words), not the fallback string.
\<close>

theorem number_to_words_negative:
  assumes "py_int v = Inr num" and "num < 0"
  shows "number_to_words v = Inr '' Rupees Only''"
  using assms
  by (simp add: number_to_words_def number_to_words_try_def convert_hundreds_negative)

theorem number_to_words_negative_witness:
  "py_int (PyInt (- 5)) = Inr (- 5) \<and> (- 5 :: int) < 0 \<and>
   number_to_words (PyInt (- 5)) = Inr '' Rupees Only'' \<and>
   py_int (PyStr '' -5 '') = Inr (- 5) \<and>
   number_to_words (PyStr '' -5 '') = Inr '' Rupees Only''"
  using number_to_words_negative [of "PyInt (- 5)" "- 5"]
    number_to_words_negative [of "PyStr '' -5 ''" "- 5"] py_int_separator(3)
  by simp

section \<open>Properties of the invoice numbering\<close>

text \<open>
  C8: invoice numbers are meant to increase: the new number is one more than the highest
  stored one, starting at "INV1". The store compares the numbers as strings, so once
  "INV10" is stored the highest in its order is still "INV9": eleven requests in a row
  on an empty store hand out "INV10" twice.
\<close>

theorem create_invoice_repeats_number:
  "map_sum id fst (create_invoices (replicate 11 []) []) =
     Inr [''INV1'', ''INV2'', ''INV3'', ''INV4'', ''INV5'', ''INV6'', ''INV7'', ''INV8'',
          ''INV9'', ''INV10'', ''INV10'']"
  by code_simp

section \<open>Rounding to the nearest integer\<close>

lemma round_half_even_cases:
  "round_half_even x = \<lfloor>x\<rfloor> \<and> x - of_int \<lfloor>x\<rfloor> \<le> 1 / 2 \<or>
   round_half_even x = \<lfloor>x\<rfloor> + 1 \<and> 1 / 2 \<le> x - of_int \<lfloor>x\<rfloor>"
  by (auto simp add: round_half_even_def Let_def)

lemma round_half_even_near: "\<bar>of_int (round_half_even x) - x\<bar> \<le> 1 / 2"
proof -
  have "of_int \<lfloor>x\<rfloor> \<le> x" and "x < of_int \<lfloor>x\<rfloor> + 1" by linarith+
  with round_half_even_cases [of x] show ?thesis by (elim disjE conjE) simp_all
qed

lemma round_half_even_of_int [simp]: "round_half_even (of_int n) = n"
  by (simp add: round_half_even_def)

lemma round_half_even_tie_even:
  assumes "\<bar>of_int (round_half_even x) - x\<bar> = 1 / 2"
  shows "even (round_half_even x)"
  using assms by (auto simp add: round_half_even_def Let_def abs_if split: if_splits) linarith+

lemma round_half_even_le: "x \<le> of_int n \<Longrightarrow> round_half_even x \<le> n"
proof -
  assume le: "x \<le> of_int n"
  then have a: "\<lfloor>x\<rfloor> \<le> n" by (simp add: floor_le_iff)
  show ?thesis
  proof (cases "x = of_int n")
    case True
    then show ?thesis by simp
  next
    case False
    with le have "x < of_int n" by simp
    then have "\<lfloor>x\<rfloor> < n" by (simp add: floor_less_iff)
    with round_half_even_cases [of x] show ?thesis by auto
  qed
qed

lemma round_half_even_ge: "of_int n \<le> x \<Longrightarrow> n \<le> round_half_even x"
  using round_half_even_cases [of x] by (auto simp: le_floor_iff) linarith+

lemma round_half_even_eqI:
  assumes "\<bar>x - of_int n\<bar> < 1 / 2"
  shows "round_half_even x = n"
proof -
  have "\<bar>of_int (round_half_even x) - x\<bar> \<le> 1 / 2" by (rule round_half_even_near)
  with assms have "\<bar>(of_int (round_half_even x) :: rat) - of_int n\<bar> < 1" by linarith
  then have "\<bar>(of_int (round_half_even x - n) :: rat)\<bar> < of_int 1" by simp
  then have "\<bar>round_half_even x - n\<bar> < 1" by (simp only: of_int_abs [symmetric] of_int_less_iff)
  then show ?thesis by simp
qed

lemma round_half_even_nearest:
  "\<bar>of_int (round_half_even x) - x\<bar> \<le> \<bar>of_int k - x\<bar>"
proof (cases "k = round_half_even x")
  case True
  then show ?thesis by simp
next
  case False
  then have "1 \<le> \<bar>k - round_half_even x\<bar>" by simp
  then have "(of_int 1 :: rat) \<le> of_int \<bar>k - round_half_even x\<bar>" by (simp only: of_int_le_iff)
  then have "(1::rat) \<le> \<bar>of_int k - of_int (round_half_even x)\<bar>" by simp
  with round_half_even_near [of x] show ?thesis by linarith
qed

text \<open>Lower bounds on the magnitude of the rounded integer.\<close>

lemma round_half_even_abs_ge:
  assumes "of_int n \<le> \<bar>y\<bar>"
  shows "n \<le> \<bar>round_half_even y\<bar>"
proof (cases "0 \<le> y")
  case True
  with assms have "of_int n \<le> y" by simp
  then have "n \<le> round_half_even y" by (rule round_half_even_ge)
  then show ?thesis by simp
next
  case False
  with assms have "y \<le> of_int (- n)" by simp
  then have "round_half_even y \<le> - n" by (rule round_half_even_le)
  then show ?thesis by simp
qed

lemma round_half_even_ge_half:
  assumes "of_int n - 1 / 2 \<le> y" and "even n"
  shows "n \<le> round_half_even y"
proof (cases "of_int n \<le> y")
  case True
  then show ?thesis by (rule round_half_even_ge)
next
  case False
  then have lt: "y < of_int n" by simp
  have "\<lfloor>y\<rfloor> = n - 1"
    by (rule floor_unique) (use assms(1) lt in simp_all)
  with assms show ?thesis
    by (auto simp add: round_half_even_def Let_def)
qed

lemma round_half_even_le_half:
  assumes "y \<le> of_int n + 1 / 2" and "even n"
  shows "round_half_even y \<le> n"
proof (cases "y \<le> of_int n")
  case True
  then show ?thesis by (rule round_half_even_le)
next
  case False
  then have gt: "of_int n < y" by simp
  have "\<lfloor>y\<rfloor> = n"
    by (rule floor_unique) (use assms(1) gt in simp_all)
  with assms show ?thesis
    by (auto simp add: round_half_even_def Let_def)
qed

lemma round_half_even_abs_ge_half:
  assumes "of_int n - 1 / 2 \<le> \<bar>y\<bar>" and "even n"
  shows "n \<le> \<bar>round_half_even y\<bar>"
proof (cases "0 \<le> y")
  case True
  with assms have "of_int n - 1 / 2 \<le> y" by simp
  then have "n \<le> round_half_even y" using assms(2) by (rule round_half_even_ge_half)
  then show ?thesis by simp
next
  case False
  with assms(1) have "y \<le> of_int (- n) + 1 / 2" by simp
  moreover from assms(2) have "even (- n)" by simp
  ultimately have "round_half_even y \<le> - n" by (rule round_half_even_le_half)
  then show ?thesis by simp
qed

section \<open>Rounding to binary64\<close>

lemma pow2_bitlen_rat:
  fixes p :: int
  assumes "0 < p"
  shows "(2::rat) powi (bitlen p - 1) \<le> of_int p" and "(of_int p :: rat) < 2 powi (bitlen p)"
proof -
  from assms have b: "1 \<le> bitlen p" by (auto simp: bitlen_alt_def)
  from bitlen_bounds [OF assms] have lo: "2 ^ nat (bitlen p - 1) \<le> p" and hi: "p < 2 ^ nat (bitlen p)"
    by auto
  from lo have "(of_int (2 ^ nat (bitlen p - 1)) :: rat) \<le> of_int p"
    by (simp only: of_int_le_iff)
  with b show "(2::rat) powi (bitlen p - 1) \<le> of_int p"
    by (simp add: power_int_nonneg_exp)
  from hi have "(of_int p :: rat) < of_int (2 ^ nat (bitlen p))"
    by (simp only: of_int_less_iff)
  with b show "(of_int p :: rat) < 2 powi (bitlen p)"
    by (simp add: power_int_nonneg_exp)
qed

lemma ilog2_bounds:
  assumes "x \<noteq> 0"
  shows "2 powi (ilog2 x) \<le> \<bar>x\<bar>" and "\<bar>x\<bar> < 2 powi (ilog2 x + 1)"
proof -
  obtain p q where pq: "quotient_of \<bar>x\<bar> = (p, q)" by (cases "quotient_of \<bar>x\<bar>")
  then have q: "0 < q" by (rule quotient_of_denom_pos)
  from pq have x: "\<bar>x\<bar> = of_int p / of_int q" by (rule quotient_of_div)
  from assms have "0 < \<bar>x\<bar>" by simp
  with x q have p: "0 < p" by (simp add: zero_less_divide_iff)
  define d where "d = bitlen p - bitlen q"
  have qr: "(0::rat) < of_int q" using q by simp
  have up: "\<bar>x\<bar> < 2 powi (d + 1)"
  proof -
    have "of_int p < (2::rat) powi (bitlen p)" using pow2_bitlen_rat(2) [OF p] .
    also have "\<dots> = 2 powi (d + 1) * 2 powi (bitlen q - 1)"
      by (simp add: d_def power_int_add [symmetric])
    also have "\<dots> \<le> 2 powi (d + 1) * of_int q"
      using pow2_bitlen_rat(1) [OF q] by (intro mult_left_mono) simp_all
    finally show ?thesis using qr by (simp add: x pos_divide_less_eq)
  qed
  have lo: "2 powi (d - 1) \<le> \<bar>x\<bar>"
  proof -
    have "2 powi (d - 1) * of_int q \<le> (2::rat) powi (d - 1) * 2 powi (bitlen q)"
      using pow2_bitlen_rat(2) [OF q] by (intro mult_left_mono) simp_all
    also have "\<dots> = 2 powi (bitlen p - 1)"
      by (simp add: d_def power_int_add [symmetric])
    also have "\<dots> \<le> of_int p" using pow2_bitlen_rat(1) [OF p] .
    finally show ?thesis using qr by (simp add: x pos_le_divide_eq)
  qed
  have il: "ilog2 x = (if 2 powi d \<le> \<bar>x\<bar> then d else d - 1)"
    by (simp add: ilog2_def pq d_def Let_def)
  show "2 powi (ilog2 x) \<le> \<bar>x\<bar>" using lo by (simp add: il)
  show "\<bar>x\<bar> < 2 powi (ilog2 x + 1)" using up by (auto simp add: il)
qed

lemma pow2_less_iff: "(2::rat) powi a < 2 powi b \<longleftrightarrow> a < b"
proof
  assume l: "(2::rat) powi a < 2 powi b"
  show "a < b"
  proof (rule ccontr)
    assume "\<not> a < b"
    then have "b \<le> a" by simp
    then have "(2::rat) powi b \<le> 2 powi a" by (intro power_int_increasing) simp_all
    with l show False by simp
  qed
next
  assume "a < b"
  then show "(2::rat) powi a < 2 powi b" by (intro power_int_strict_increasing) simp_all
qed

lemma pow2_le_iff: "(2::rat) powi a \<le> 2 powi b \<longleftrightarrow> a \<le> b"
  using pow2_less_iff [of b a] by (simp add: not_less [symmetric])

text \<open>The bounds determine the exponent.\<close>

lemma ilog2_eqI:
  assumes "2 powi k \<le> \<bar>x\<bar>" and "\<bar>x\<bar> < 2 powi (k + 1)"
  shows "ilog2 x = k"
proof -
  have "(0::rat) < 2 powi k" by simp
  with assms(1) have "0 < \<bar>x\<bar>" by linarith
  then have nz: "x \<noteq> 0" by simp
  have "(2::rat) powi k < 2 powi (ilog2 x + 1)"
    using assms(1) ilog2_bounds(2) [OF nz] by (rule le_less_trans)
  then have a: "k < ilog2 x + 1" by (simp only: pow2_less_iff)
  have "(2::rat) powi (ilog2 x) < 2 powi (k + 1)"
    using ilog2_bounds(1) [OF nz] assms(2) by (rule le_less_trans)
  then have b: "ilog2 x < k + 1" by (simp only: pow2_less_iff)
  from a b show ?thesis by simp
qed

text \<open>
  The rounded mantissa has at most 53 bits, so what \<open>round64\<close> returns is
  representable, and a representable number is returned unchanged.
\<close>

lemma round64_rounded:
  "round64 x =
     (if x = 0 then Fin 0
      else if 2 ^ 1024 \<le> \<bar>rounded x\<bar> then (if 0 < x then PInf else NInf)
      else Fin (rounded x))"
  by (simp add: round64_def rounded_def Let_def)

lemma round_half_even_zero [simp]: "round_half_even 0 = 0"
  using round_half_even_of_int [of 0] by simp

lemma ulp_exp_lower: "- 1074 \<le> ulp_exp x" and ulp_exp_ilog2: "ilog2 x - 52 \<le> ulp_exp x"
  by (simp_all add: ulp_exp_def)

lemma mantissa_bound:
  assumes "x \<noteq> 0"
  shows "\<bar>round_half_even (x / 2 powi ulp_exp x)\<bar> \<le> 2 ^ 53"
proof -
  define e where "e = ulp_exp x"
  have pos: "(0::rat) < 2 powi e" by simp
  have "\<bar>x\<bar> < 2 powi (ilog2 x + 1)" using assms by (rule ilog2_bounds(2))
  also have "\<dots> \<le> 2 powi (e + 53)"
    using ulp_exp_ilog2 [of x] by (simp add: pow2_le_iff e_def)
  also have "\<dots> = 2 ^ 53 * 2 powi e"
    by (simp add: power_int_add)
  finally have "\<bar>x\<bar> / 2 powi e < 2 ^ 53"
    using pos by (simp add: pos_divide_less_eq)
  moreover have "x / 2 powi e \<le> \<bar>x\<bar> / 2 powi e"
    by (intro divide_right_mono) simp_all
  moreover have "(- \<bar>x\<bar>) / 2 powi e \<le> x / 2 powi e"
    by (intro divide_right_mono) simp_all
  ultimately have "x / 2 powi e \<le> 2 ^ 53" and "- (2 ^ 53) \<le> x / 2 powi e"
    by simp_all
  then have up: "x / 2 powi e \<le> of_int (2 ^ 53)" and lo: "of_int (- (2 ^ 53)) \<le> x / 2 powi e"
    by simp_all
  from up have "round_half_even (x / 2 powi e) \<le> 2 ^ 53" by (rule round_half_even_le)
  moreover from lo have "- (2 ^ 53) \<le> round_half_even (x / 2 powi e)" by (rule round_half_even_ge)
  ultimately show ?thesis by (simp add: e_def abs_le_iff)
qed

lemma rounded_dyadic: "dyadic53 (rounded x)"
proof (cases "x = 0")
  case True
  have "rounded 0 = of_int 0 * 2 powi 0" by (simp add: rounded_def)
  then show ?thesis unfolding dyadic53_def True by (intro exI [of _ 0]) simp
next
  case False
  then have mb: "\<bar>round_half_even (x / 2 powi ulp_exp x)\<bar> \<le> 2 ^ 53"
    by (rule mantissa_bound)
  show ?thesis
    unfolding dyadic53_def rounded_def
    by (rule exI [of _ "round_half_even (x / 2 powi ulp_exp x)"], rule exI [of _ "ulp_exp x"])
      (use mb in \<open>simp add: ulp_exp_lower\<close>)
qed

lemma dyadic_scaled_int:
  assumes x: "x = of_int m * 2 powi e" and m: "\<bar>m\<bar> \<le> 2 ^ 53" and e: "- 1074 \<le> e" and nz: "x \<noteq> 0"
  shows "\<exists>k. x / 2 powi ulp_exp x = of_int k"
proof (cases "ulp_exp x \<le> e")
  case True
  then have d: "(2::rat) powi e / 2 powi ulp_exp x = 2 ^ nat (e - ulp_exp x)"
    by (simp add: power_int_diff [symmetric] power_int_nonneg_exp)
  have "x / 2 powi ulp_exp x = of_int m * (2 powi e / 2 powi ulp_exp x)"
    by (simp add: x)
  also have "\<dots> = of_int (m * 2 ^ nat (e - ulp_exp x))"
    by (simp add: d)
  finally show ?thesis ..
next
  case False
  with e have u: "ulp_exp x = ilog2 x - 52" by (simp add: ulp_exp_def)
  with False have ge: "e + 53 \<le> ilog2 x" by simp
  have mr: "\<bar>of_int m :: rat\<bar> \<le> 2 ^ 53"
  proof -
    from m have "(of_int \<bar>m\<bar> :: rat) \<le> of_int (2 ^ 53)" by (simp only: of_int_le_iff)
    then show ?thesis by simp
  qed
  have absx: "\<bar>x\<bar> = \<bar>of_int m\<bar> * 2 powi e" by (simp add: x abs_mult)
  have "2 powi (ilog2 x) \<le> \<bar>x\<bar>" using nz by (rule ilog2_bounds(1))
  also have "\<dots> \<le> 2 ^ 53 * 2 powi e" unfolding absx using mr by (intro mult_right_mono) simp_all
  also have "\<dots> = 2 powi (e + 53)" by (simp add: power_int_add)
  finally have "ilog2 x \<le> e + 53" by (simp only: pow2_le_iff)
  with ge have il: "ilog2 x = e + 53" by simp
  have "(2::rat) powi (e + 53) \<le> \<bar>x\<bar>" using ilog2_bounds(1) [OF nz] by (simp only: il)
  then have "2 ^ 53 * (2::rat) powi e \<le> \<bar>of_int m\<bar> * 2 powi e" by (simp add: power_int_add absx)
  then have "(2::rat) ^ 53 \<le> \<bar>of_int m\<bar>" by simp
  then have "(of_int (2 ^ 53) :: rat) \<le> of_int \<bar>m\<bar>" by simp
  then have "2 ^ 53 \<le> \<bar>m\<bar>" by (simp only: of_int_le_iff)
  with m have "\<bar>m\<bar> = 2 ^ 53" by simp
  then have "even \<bar>m\<bar>" by simp
  then have "even m" by simp
  then obtain k where k: "m = 2 * k" by (elim evenE)
  have "ulp_exp x = e + 1" by (simp add: u il)
  then have "x / 2 powi ulp_exp x = of_int k" by (simp add: x k power_int_add)
  then show ?thesis ..
qed

lemma rounded_exact:
  assumes "dyadic53 x"
  shows "rounded x = x"
proof (cases "x = 0")
  case True
  then show ?thesis by (simp add: rounded_def)
next
  case False
  from assms obtain m e where "x = of_int m * 2 powi e" "\<bar>m\<bar> \<le> 2 ^ 53" "- 1074 \<le> e"
    unfolding dyadic53_def by blast
  with False obtain k where k: "x / 2 powi ulp_exp x = of_int k"
    using dyadic_scaled_int by blast
  then have "x = of_int k * 2 powi ulp_exp x" by (simp add: divide_eq_eq)
  moreover have "rounded x = of_int k * 2 powi ulp_exp x" by (simp add: rounded_def k)
  ultimately show ?thesis by simp
qed

lemma round64_exact:
  assumes "dyadic53 x" and "\<bar>x\<bar> < 2 ^ 1024"
  shows "round64 x = Fin x"
  using assms by (simp add: round64_rounded rounded_exact)

lemma round64_overflow:
  assumes "dyadic53 x" and "2 ^ 1024 \<le> \<bar>x\<bar>"
  shows "round64 x = (if 0 < x then PInf else NInf)"
proof -
  from assms(2) have "x \<noteq> 0" by auto
  with assms show ?thesis by (simp add: round64_rounded rounded_exact)
qed

lemma round64_not_NaN [simp]: "round64 x \<noteq> NaN"
  by (simp add: round64_rounded)

lemma round64_Fin:
  assumes "round64 x = Fin y"
  shows "dyadic53 y" and "\<bar>y\<bar> < 2 ^ 1024"
proof -
  have "dyadic53 y \<and> \<bar>y\<bar> < 2 ^ 1024"
  proof (cases "x = 0")
    case True
    with assms have "y = 0" by (simp add: round64_rounded)
    moreover have "dyadic53 0" using rounded_dyadic [of 0] by (simp add: rounded_def)
    ultimately show ?thesis by simp
  next
    case False
    with assms have "y = rounded x" and "\<not> 2 ^ 1024 \<le> \<bar>rounded x\<bar>"
      by (auto simp add: round64_rounded split: if_splits)
    then show ?thesis using rounded_dyadic [of x] by simp
  qed
  then show "dyadic53 y" and "\<bar>y\<bar> < 2 ^ 1024" by simp_all
qed

lemma round64_idem: "round64 x = Fin y \<Longrightarrow> round64 y = Fin y"
  using round64_Fin [of x y] by (simp add: round64_exact)

text \<open>
  Representable numbers: integers up to \<open>2\<^sup>5\<^sup>3\<close>, and only integers from
  \<open>2\<^sup>5\<^sup>3\<close> on.
\<close>

lemma dyadic53_of_int:
  assumes "\<bar>n\<bar> \<le> 2 ^ 53"
  shows "dyadic53 (of_int n)"
  unfolding dyadic53_def
  by (rule exI [of _ n], rule exI [of _ 0]) (use assms in simp)

lemma dyadic53_big_int:
  assumes "dyadic53 x" and "2 ^ 53 \<le> \<bar>x\<bar>"
  shows "\<exists>n. x = of_int n"
proof -
  from assms obtain m e where x: "x = of_int m * 2 powi e" and m: "\<bar>m\<bar> \<le> 2 ^ 53" and e: "- 1074 \<le> e"
    unfolding dyadic53_def by blast
  have mr: "\<bar>of_int m :: rat\<bar> \<le> 2 ^ 53"
  proof -
    from m have "(of_int \<bar>m\<bar> :: rat) \<le> of_int (2 ^ 53)" by (simp only: of_int_le_iff)
    then show ?thesis by simp
  qed
  have "0 \<le> e"
  proof (rule ccontr)
    assume "\<not> 0 \<le> e"
    then have "e < 0" by simp
    then have "(2::rat) powi e < 2 powi 0" by (simp only: pow2_less_iff)
    then have lt: "(2::rat) powi e < 1" by simp
    have "\<bar>x\<bar> = \<bar>of_int m\<bar> * 2 powi e" by (simp add: x abs_mult)
    also have "\<dots> \<le> 2 ^ 53 * 2 powi e" using mr by (intro mult_right_mono) simp_all
    also have "\<dots> < 2 ^ 53 * 1" using lt by (intro mult_strict_left_mono) simp_all
    finally show False using assms(2) by simp
  qed
  then have "x = of_int (m * 2 ^ nat e)" by (simp add: x power_int_nonneg_exp)
  then show ?thesis ..
qed

text \<open>No overflow below \<open>2\<^sup>1\<^sup>0\<^sup>2\<^sup>3\<close>.\<close>

lemma round64_finite:
  assumes "\<bar>x\<bar> < 2 ^ 1023"
  shows "\<exists>y. round64 x = Fin y"
proof (cases "x = 0")
  case True
  then show ?thesis by (simp add: round64_def)
next
  case False
  have "2 powi (ilog2 x) \<le> \<bar>x\<bar>" using False by (rule ilog2_bounds(1))
  also have "\<dots> < 2 powi 1023" using assms by simp
  finally have "ilog2 x < 1023" by (simp only: pow2_less_iff)
  then have e: "ulp_exp x \<le> 970" by (simp add: ulp_exp_def)
  have mr: "\<bar>of_int (round_half_even (x / 2 powi ulp_exp x)) :: rat\<bar> \<le> 2 ^ 53"
  proof -
    from mantissa_bound [OF False]
    have "(of_int \<bar>round_half_even (x / 2 powi ulp_exp x)\<bar> :: rat) \<le> of_int (2 ^ 53)"
      by (simp only: of_int_le_iff)
    then show ?thesis by simp
  qed
  have "\<bar>rounded x\<bar> = \<bar>of_int (round_half_even (x / 2 powi ulp_exp x))\<bar> * 2 powi ulp_exp x"
    by (simp add: rounded_def abs_mult)
  also have "\<dots> \<le> 2 ^ 53 * 2 powi ulp_exp x" using mr by (intro mult_right_mono) simp_all
  also have "\<dots> \<le> 2 ^ 53 * 2 powi 970"
    using e by (intro mult_left_mono) (simp_all only: pow2_le_iff, simp_all)
  also have "\<dots> < 2 ^ 1024" by simp
  finally have "\<not> 2 ^ 1024 \<le> \<bar>rounded x\<bar>" by simp
  with False show ?thesis by (simp add: round64_rounded)
qed

lemma is_double_simps [simp]:
  "is_double (Fin y) \<longleftrightarrow> round64 y = Fin y"
  "is_double PInf" "is_double NInf" "is_double NaN"
  by (simp_all add: is_double_def)

lemma is_double_round64 [simp]: "is_double (round64 x)"
  by (cases "round64 x") (simp_all add: round64_idem)

lemma round64_zero [simp]: "round64 0 = Fin 0"
  by (simp add: round64_def)

lemma fadd_Fin:
  assumes "fadd a b = Fin z"
  obtains x y where "a = Fin x" and "b = Fin y" and "round64 (x + y) = Fin z"
  using assms by (cases a; cases b) simp_all

lemma is_double_fadd [simp]: "is_double (fadd a b)"
  by (cases a; cases b) simp_all

text \<open>
  Consequences for the program: the rounded gross total converts back to a float without
  loss, and rounding a float to two decimals never overflows.
\<close>

lemma py_float_of_int_exact:
  assumes "round64 g = Fin g"
  shows "py_float_of_int (round_half_even g) = Inr (Fin (of_int (round_half_even g)))"
proof -
  from assms have d: "dyadic53 g" and fin: "\<bar>g\<bar> < 2 ^ 1024" by (rule round64_Fin)+
  have "round64 (of_int (round_half_even g)) = Fin (of_int (round_half_even g))"
  proof (cases "2 ^ 53 \<le> \<bar>g\<bar>")
    case True
    with d obtain n where "g = of_int n" using dyadic53_big_int by blast
    with assms show ?thesis by simp
  next
    case False
    then have "g \<le> of_int (2 ^ 53)" and "of_int (- (2 ^ 53)) \<le> g" by simp_all
    then have "round_half_even g \<le> 2 ^ 53" and "- (2 ^ 53) \<le> round_half_even g"
      by (simp_all only: round_half_even_le round_half_even_ge)
    then have b: "\<bar>round_half_even g\<bar> \<le> 2 ^ 53" by simp
    then have "dyadic53 (of_int (round_half_even g))" by (rule dyadic53_of_int)
    moreover have "\<bar>of_int (round_half_even g) :: rat\<bar> < 2 ^ 1024"
    proof -
      from b have "(of_int \<bar>round_half_even g\<bar> :: rat) \<le> of_int (2 ^ 53)" by (simp only: of_int_le_iff)
      then show ?thesis by simp
    qed
    ultimately show ?thesis by (rule round64_exact)
  qed
  then show ?thesis by (simp add: py_float_of_int_def)
qed

lemma py_round2_finite:
  assumes "round64 c = Fin c"
  shows "\<exists>r. py_round2 (Fin c) = Fin r"
proof (cases "2 ^ 53 \<le> \<bar>c\<bar>")
  case True
  from assms have "dyadic53 c" by (rule round64_Fin)
  with True obtain n where "c = of_int n" using dyadic53_big_int by blast
  then have "c * 100 = of_int (n * 100)" by simp
  then have "of_int (round_half_even (c * 100)) / 100 = c"
    by (simp only: round_half_even_of_int)
  with assms show ?thesis by simp
next
  case False
  have "\<bar>of_int (round_half_even (c * 100)) - c * 100\<bar> \<le> 1 / 2" by (rule round_half_even_near)
  then have "\<bar>of_int (round_half_even (c * 100)) / 100 - c\<bar> \<le> 1 / 200"
    by linarith
  moreover from False have "\<bar>c\<bar> < 2 ^ 53" by simp
  ultimately have "\<bar>of_int (round_half_even (c * 100)) / 100 :: rat\<bar> < 2 ^ 53 + 1"
    by linarith
  moreover have "(2::rat) ^ 53 + 1 < 2 ^ 1023" by simp
  ultimately have "\<bar>of_int (round_half_even (c * 100)) / 100 :: rat\<bar> < 2 ^ 1023"
    by (rule less_trans)
  then show ?thesis unfolding py_round2.simps by (rule round64_finite)
qed

text \<open>
  The largest magnitude that does not overflow: a number rounds to an infinity exactly
  from \<open>2\<^sup>1\<^sup>0\<^sup>2\<^sup>4 - 2\<^sup>9\<^sup>7\<^sup>0\<close> on, and so an integer is too large for a float exactly from
  there on.
\<close>

lemma abs_rounded: "\<bar>rounded x\<bar> = of_int \<bar>round_half_even (x / 2 powi ulp_exp x)\<bar> * 2 powi ulp_exp x"
  by (simp add: rounded_def abs_mult)

lemma ulp_exp_top:
  assumes "2 ^ 1023 \<le> \<bar>x\<bar>" and "\<bar>x\<bar> < 2 ^ 1024"
  shows "ulp_exp x = 971"
proof -
  have "ilog2 x = 1023" by (rule ilog2_eqI) (use assms in simp_all)
  then show ?thesis by (simp add: ulp_exp_def)
qed

lemma round64_below_threshold:
  assumes "\<bar>x\<bar> < 2 ^ 1024 - 2 ^ 970"
  shows "\<exists>y. round64 x = Fin y"
proof (cases "\<bar>x\<bar> < 2 ^ 1023")
  case True
  then show ?thesis by (rule round64_finite)
next
  case False
  then have lo: "2 ^ 1023 \<le> \<bar>x\<bar>" by simp
  from assms have hi: "\<bar>x\<bar> < 2 ^ 1024" by simp
  from lo have nz: "x \<noteq> 0" by auto
  have u: "ulp_exp x = 971" using lo hi by (rule ulp_exp_top)
  define y where "y = x / 2 powi 971"
  have "\<bar>y\<bar> = \<bar>x\<bar> / 2 ^ 971" by (simp add: y_def)
  also have "\<dots> < (2 ^ 1024 - 2 ^ 970) / 2 ^ 971"
    using assms by (intro divide_strict_right_mono) simp_all
  also have "\<dots> = 2 ^ 53 - 1 / 2" by simp
  finally have "\<bar>y\<bar> < 2 ^ 53 - 1 / 2" .
  with round_half_even_near [of y] have "\<bar>of_int (round_half_even y) :: rat\<bar> < 2 ^ 53"
    by linarith
  then have "(of_int \<bar>round_half_even y\<bar> :: rat) * 2 ^ 971 < 2 ^ 53 * 2 ^ 971"
    by (intro mult_strict_right_mono) simp_all
  then have "\<bar>rounded x\<bar> < 2 ^ 1024" by (simp add: abs_rounded u y_def)
  with nz show ?thesis by (simp add: round64_rounded)
qed

lemma round64_from_threshold:
  assumes "2 ^ 1024 - 2 ^ 970 \<le> \<bar>x\<bar>"
  shows "round64 x = (if 0 < x then PInf else NInf)"
proof -
  from assms have nz: "x \<noteq> 0" by auto
  have "2 ^ 1024 \<le> \<bar>rounded x\<bar>"
  proof (cases "\<bar>x\<bar> < 2 ^ 1024")
    case True
    from assms have lo: "2 ^ 1023 \<le> \<bar>x\<bar>" by simp
    have u: "ulp_exp x = 971" using lo True by (rule ulp_exp_top)
    define y where "y = x / 2 powi 971"
    have "(2 ^ 1024 - 2 ^ 970) / 2 ^ 971 \<le> \<bar>x\<bar> / (2 ^ 971 :: rat)"
      using assms by (intro divide_right_mono) simp_all
    moreover have "((2 ^ 1024 - 2 ^ 970) / 2 ^ 971 :: rat) = of_int (2 ^ 53) - 1 / 2" by simp
    moreover have "\<bar>y\<bar> = \<bar>x\<bar> / 2 ^ 971" by (simp add: y_def)
    ultimately have "of_int (2 ^ 53) - 1 / 2 \<le> \<bar>y\<bar>" by simp
    then have "2 ^ 53 \<le> \<bar>round_half_even y\<bar>" by (rule round_half_even_abs_ge_half) simp
    then have "(of_int (2 ^ 53) :: rat) \<le> of_int \<bar>round_half_even y\<bar>" by (simp only: of_int_le_iff)
    then have "(of_int (2 ^ 53) :: rat) * 2 ^ 971 \<le> of_int \<bar>round_half_even y\<bar> * 2 ^ 971"
      by (intro mult_right_mono) simp_all
    then show ?thesis by (simp add: abs_rounded u y_def)
  next
    case False
    then have big: "2 powi 1024 \<le> \<bar>x\<bar>" by simp
    define k where "k = ilog2 x"
    have "\<bar>x\<bar> < 2 powi (k + 1)" unfolding k_def using nz by (rule ilog2_bounds(2))
    with big have "(2::rat) powi 1024 < 2 powi (k + 1)" by (rule le_less_trans)
    then have "1024 < k + 1" by (simp only: pow2_less_iff)
    then have k: "1024 \<le> k" by simp
    then have u: "ulp_exp x = k - 52" by (simp add: ulp_exp_def k_def)
    define y where "y = x / 2 powi (k - 52)"
    have "2 powi k \<le> \<bar>x\<bar>" unfolding k_def using nz by (rule ilog2_bounds(1))
    then have "2 powi k / 2 powi (k - 52) \<le> \<bar>x\<bar> / (2 powi (k - 52) :: rat)"
      by (intro divide_right_mono) simp_all
    moreover have "(2::rat) powi k / 2 powi (k - 52) = of_int (2 ^ 52)"
      by (simp add: power_int_diff)
    moreover have "\<bar>y\<bar> = \<bar>x\<bar> / 2 powi (k - 52)" by (simp add: y_def abs_divide)
    ultimately have "of_int (2 ^ 52) \<le> \<bar>y\<bar>" by simp
    then have "2 ^ 52 \<le> \<bar>round_half_even y\<bar>" by (rule round_half_even_abs_ge)
    then have "(of_int (2 ^ 52) :: rat) \<le> of_int \<bar>round_half_even y\<bar>" by (simp only: of_int_le_iff)
    then have a: "(of_int (2 ^ 52) :: rat) * 2 powi (k - 52) \<le>
        of_int \<bar>round_half_even y\<bar> * 2 powi (k - 52)"
      by (intro mult_right_mono) simp_all
    have b: "(of_int (2 ^ 52) :: rat) * 2 powi (k - 52) = 2 powi k"
      by (simp add: power_int_diff)
    have c: "(2::rat) powi 1024 \<le> 2 powi k" using k by (simp only: pow2_le_iff)
    have "(2::rat) powi 1024 \<le> of_int \<bar>round_half_even y\<bar> * 2 powi (k - 52)"
      using c a unfolding b by (rule order_trans)
    then show ?thesis by (simp add: abs_rounded u y_def)
  qed
  with nz show ?thesis by (simp add: round64_rounded)
qed

lemma py_float_of_int_overflow_iff:
  "py_float_of_int n = Inl OverflowError \<longleftrightarrow> 2 ^ 1024 - 2 ^ 970 \<le> \<bar>n\<bar>"
proof -
  have conv: "2 ^ 1024 - 2 ^ 970 \<le> \<bar>n\<bar> \<longleftrightarrow> (2 ^ 1024 - 2 ^ 970 :: rat) \<le> \<bar>of_int n\<bar>"
  proof -
    have "(2 ^ 1024 - 2 ^ 970 :: rat) = of_int (2 ^ 1024 - 2 ^ 970)" by simp
    moreover have "\<bar>of_int n :: rat\<bar> = of_int \<bar>n\<bar>" by simp
    ultimately show ?thesis by (simp only: of_int_le_iff)
  qed
  show ?thesis
  proof (cases "2 ^ 1024 - 2 ^ 970 \<le> \<bar>n\<bar>")
    case True
    then have "round64 (of_int n) = (if 0 < (of_int n :: rat) then PInf else NInf)"
      unfolding conv by (rule round64_from_threshold)
    with True show ?thesis by (simp add: py_float_of_int_def)
  next
    case False
    then have "\<bar>of_int n :: rat\<bar> < 2 ^ 1024 - 2 ^ 970" unfolding conv by simp
    then obtain y where "round64 (of_int n) = Fin y" using round64_below_threshold by blast
    with False show ?thesis by (simp add: py_float_of_int_def)
  qed
qed

section \<open>The loop and the totals\<close>

text \<open>Every step of the loop adds the same amount to both halves of the tax.\<close>

lemma add_product_Inr:
  assumes "add_product p (tv, tc, ts) = Inr (tv', tc', ts')"
  obtains v a b where "tv' = fadd tv v" and "tc' = fadd tc a" and "ts' = fadd ts b" and "a = b"
  using assms
  by (auto simp add: add_product_def Let_def and_then_def split: sum.splits)

lemma add_product_Inl:
  assumes "add_product p acc = Inl e"
  shows "py_float_of_int (quantity p) = Inl OverflowError \<and> e = OverflowError"
  using assms
  by (cases acc) (auto simp add: add_product_def Let_def and_then_def py_float_of_int_def
      split: sum.splits float.splits)

lemma accumulate_same:
  "accumulate ps (tv, c, c) = Inr (tv', tc, ts) \<Longrightarrow> tc = ts"
proof (induction ps arbitrary: tv c)
  case Nil
  then show ?case by auto
next
  case (Cons p ps)
  from Cons.prems obtain tv1 tc1 ts1 where
    step: "add_product p (tv, c, c) = Inr (tv1, tc1, ts1)"
    and rest: "accumulate ps (tv1, tc1, ts1) = Inr (tv', tc, ts)"
    by (auto simp add: and_then_def split: sum.splits)
  from step have "tc1 = ts1" by (elim add_product_Inr) simp
  with rest Cons.IH show ?case by simp
qed

lemma accumulate_is_double:
  "accumulate ps (tv, tc, ts) = Inr (tv', tc', ts') \<Longrightarrow>
   is_double tv \<Longrightarrow> is_double tc \<Longrightarrow> is_double ts \<Longrightarrow>
   is_double tv' \<and> is_double tc' \<and> is_double ts'"
proof (induction ps arbitrary: tv tc ts)
  case Nil
  then show ?case by simp
next
  case (Cons p ps)
  from Cons.prems(1) obtain tv1 tc1 ts1 where
    step: "add_product p (tv, tc, ts) = Inr (tv1, tc1, ts1)"
    and rest: "accumulate ps (tv1, tc1, ts1) = Inr (tv', tc', ts')"
    by (auto simp add: and_then_def split: sum.splits)
  from step have "is_double tv1 \<and> is_double tc1 \<and> is_double ts1"
    by (elim add_product_Inr) simp
  with rest Cons.IH show ?case by blast
qed

text \<open>What a successful call went through.\<close>

lemma totals_Inr:
  assumes "calculate_invoice_totals ps = Inr t"
  obtains tv c x g where
    "accumulate ps (Fin 0, Fin 0, Fin 0) = Inr (tv, Fin c, Fin c)"
    and "round64 c = Fin c" and "is_double tv"
    and "fadd (Fin c) (Fin c) = Fin x" and "fadd tv (Fin x) = Fin g" and "round64 g = Fin g"
    and "t = \<lparr>total_taxable_value = py_round2 tv, total_cgst = py_round2 (Fin c),
               total_sgst = py_round2 (Fin c), total_tax = py_round2 (Fin x),
               round_off = py_round2 (fsub (Fin (of_int (round_half_even g))) (Fin g)),
               final_amount = round_half_even g\<rparr>"
proof -
  from assms obtain tv tc ts where acc: "accumulate ps (Fin 0, Fin 0, Fin 0) = Inr (tv, tc, ts)"
    and fin: "finish_totals (tv, tc, ts) = Inr t"
    by (auto simp add: calculate_invoice_totals_def and_then_def split: sum.splits)
  from acc have same: "tc = ts" by (rule accumulate_same)
  from acc have dbl: "is_double tv \<and> is_double tc \<and> is_double ts"
    by (rule accumulate_is_double) simp_all
  from fin obtain g where g: "fadd tv (fadd tc ts) = Fin g"
    by (cases "fadd tv (fadd tc ts)") (simp_all add: finish_totals_def Let_def)
  then obtain x where x: "fadd tc ts = Fin x" by (cases "fadd tc ts"; cases tv) simp_all
  then obtain c where c: "tc = Fin c" by (cases tc; cases ts) simp_all
  have gd: "round64 g = Fin g" using is_double_fadd [of tv "fadd tc ts"] by (simp add: g)
  have conv: "py_float_of_int (round_half_even g) = Inr (Fin (of_int (round_half_even g)))"
    using gd by (rule py_float_of_int_exact)
  have rec: "t = \<lparr>total_taxable_value = py_round2 tv, total_cgst = py_round2 (Fin c),
               total_sgst = py_round2 (Fin c), total_tax = py_round2 (Fin x),
               round_off = py_round2 (fsub (Fin (of_int (round_half_even g))) (Fin g)),
               final_amount = round_half_even g\<rparr>"
    using fin g x c same conv by (simp add: finish_totals_def Let_def)
  show ?thesis
  proof (rule that)
    show "accumulate ps (Fin 0, Fin 0, Fin 0) = Inr (tv, Fin c, Fin c)"
      using acc c same by simp
    show "round64 c = Fin c" using dbl c by simp
    show "is_double tv" using dbl by simp
    show "fadd (Fin c) (Fin c) = Fin x" using x c same by simp
    show "fadd tv (Fin x) = Fin g" using g x by simp
    show "round64 g = Fin g" by (rule gd)
    show "t = \<lparr>total_taxable_value = py_round2 tv, total_cgst = py_round2 (Fin c),
               total_sgst = py_round2 (Fin c), total_tax = py_round2 (Fin x),
               round_off = py_round2 (fsub (Fin (of_int (round_half_even g))) (Fin g)),
               final_amount = round_half_even g\<rparr>"
      by (rule rec)
  qed
qed

lemma totals_InrI:
  assumes "accumulate ps (Fin 0, Fin 0, Fin 0) = Inr acc" and "gross_total acc = Fin g"
  shows "\<exists>t. calculate_invoice_totals ps = Inr t \<and> final_amount t = round_half_even g"
proof -
  obtain tv tc ts where acc: "acc = (tv, tc, ts)" by (cases acc)
  from assms(2) have g: "fadd tv (fadd tc ts) = Fin g" by (simp add: gross_total_def acc)
  have gd: "round64 g = Fin g" using is_double_fadd [of tv "fadd tc ts"] by (simp add: g)
  have conv: "py_float_of_int (round_half_even g) = Inr (Fin (of_int (round_half_even g)))"
    using gd by (rule py_float_of_int_exact)
  show ?thesis
    using assms(1) g conv
    by (simp add: calculate_invoice_totals_def finish_totals_def acc Let_def)
qed

text \<open>
  The loop fails exactly when a quantity does not convert, and what the function does
  after the loop is decided by the unrounded gross total.
\<close>

lemma py_float_of_int_cases:
  "py_float_of_int n = Inl OverflowError \<or> (\<exists>y. py_float_of_int n = Inr (Fin y))"
  by (cases "round64 (of_int n)") (simp_all add: py_float_of_int_def)

lemma add_product_converts:
  assumes "py_float_of_int (quantity p) = Inr q"
  shows "\<exists>acc'. add_product p acc = Inr acc'"
  using assms by (cases acc) (simp add: add_product_def Let_def)

lemma add_product_converted:
  assumes "add_product p acc = Inr acc'"
  shows "\<exists>q. py_float_of_int (quantity p) = Inr q"
  using assms by (cases acc; cases "py_float_of_int (quantity p)") (simp_all add: add_product_def)

lemma accumulate_overflow:
  "\<exists>p \<in> set ps. py_float_of_int (quantity p) = Inl OverflowError \<Longrightarrow>
   accumulate ps acc = Inl OverflowError"
proof (induction ps arbitrary: acc)
  case Nil
  then show ?case by simp
next
  case (Cons p ps)
  show ?case
  proof (cases "add_product p acc")
    case (Inl e)
    then have "e = OverflowError" using add_product_Inl by blast
    with Inl show ?thesis by simp
  next
    case (Inr acc')
    then obtain q where "py_float_of_int (quantity p) = Inr q"
      using add_product_converted by blast
    with Cons.prems have "\<exists>p \<in> set ps. py_float_of_int (quantity p) = Inl OverflowError"
      by auto
    then have "accumulate ps acc' = Inl OverflowError" by (rule Cons.IH)
    with Inr show ?thesis by simp
  qed
qed

lemma accumulate_converts:
  "\<forall>p \<in> set ps. py_float_of_int (quantity p) \<noteq> Inl OverflowError \<Longrightarrow>
   \<exists>acc'. accumulate ps acc = Inr acc'"
proof (induction ps arbitrary: acc)
  case Nil
  show ?case by (rule exI [of _ acc]) simp
next
  case (Cons p ps)
  from Cons.prems have "py_float_of_int (quantity p) \<noteq> Inl OverflowError" by simp
  with py_float_of_int_cases [of "quantity p"] obtain y
    where "py_float_of_int (quantity p) = Inr (Fin y)" by blast
  then obtain acc1 where "add_product p acc = Inr acc1"
    using add_product_converts by blast
  moreover from Cons.prems have "\<exists>acc'. accumulate ps acc1 = Inr acc'"
    by (intro Cons.IH) simp
  ultimately show ?case by simp
qed

lemma totals_by_gross:
  assumes "accumulate ps (Fin 0, Fin 0, Fin 0) = Inr acc"
  shows "gross_total acc = NaN \<Longrightarrow> calculate_invoice_totals ps = Inl ValueError"
    and "gross_total acc = PInf \<or> gross_total acc = NInf \<Longrightarrow>
         calculate_invoice_totals ps = Inl OverflowError"
    and "gross_total acc = Fin g \<Longrightarrow> \<exists>t. calculate_invoice_totals ps = Inr t"
proof -
  obtain tv tc ts where acc: "acc = (tv, tc, ts)" by (cases acc)
  show "gross_total acc = NaN \<Longrightarrow> calculate_invoice_totals ps = Inl ValueError"
    using assms by (simp add: calculate_invoice_totals_def finish_totals_def gross_total_def acc)
  show "gross_total acc = PInf \<or> gross_total acc = NInf \<Longrightarrow>
         calculate_invoice_totals ps = Inl OverflowError"
    using assms
    by (auto simp add: calculate_invoice_totals_def finish_totals_def gross_total_def acc)
  show "gross_total acc = Fin g \<Longrightarrow> \<exists>t. calculate_invoice_totals ps = Inr t"
    using assms totals_InrI by blast
qed

section \<open>Evaluating the rounding on given numbers\<close>

text \<open>
  For a given number the exponent \<open>k\<close> and the mantissa \<open>m\<close> are supplied and checked
  by arithmetic on numerals.
\<close>

lemma round64_nearI:
  assumes "2 powi k \<le> \<bar>x\<bar>" and "\<bar>x\<bar> < 2 powi (k + 1)"
    and "e = max (k - 52) (- 1074)"
    and "\<bar>x / 2 powi e - of_int m\<bar> < 1 / 2"
    and "\<bar>of_int m * 2 powi e :: rat\<bar> < 2 ^ 1024"
  shows "round64 x = Fin (of_int m * 2 powi e)"
proof -
  have "(0::rat) < 2 powi k" by simp
  with assms(1) have "0 < \<bar>x\<bar>" by linarith
  then have nz: "x \<noteq> 0" by simp
  from assms(1,2) have "ilog2 x = k" by (rule ilog2_eqI)
  with assms(3) have u: "ulp_exp x = e" by (simp add: ulp_exp_def)
  from assms(4) have "round_half_even (x / 2 powi e) = m" by (rule round_half_even_eqI)
  with u have "rounded x = of_int m * 2 powi e" by (simp add: rounded_def)
  with nz assms(5) show ?thesis by (simp add: round64_rounded)
qed

lemma round64_dyadicI:
  assumes "\<bar>m\<bar> \<le> 2 ^ 53" and "k \<le> 1074"
  shows "round64 (of_int m / 2 ^ k) = Fin (of_int m / 2 ^ k)"
proof (rule round64_exact)
  have "of_int m / 2 ^ k = (of_int m :: rat) * 2 powi (- int k)"
    by (simp add: power_int_minus divide_inverse)
  with assms show "dyadic53 (of_int m / 2 ^ k)"
    unfolding dyadic53_def by (intro exI [of _ m] exI [of _ "- int k"]) simp
  have "\<bar>of_int m / 2 ^ k :: rat\<bar> = \<bar>of_int m\<bar> / 2 ^ k" by simp
  also have "\<dots> \<le> \<bar>of_int m\<bar> / 1" by (intro divide_left_mono) simp_all
  also have "\<dots> \<le> 2 ^ 53"
  proof -
    from assms(1) have "(of_int \<bar>m\<bar> :: rat) \<le> of_int (2 ^ 53)" by (simp only: of_int_le_iff)
    then show ?thesis by simp
  qed
  also have "\<dots> < (2::rat) ^ 1024" by simp
  finally show "\<bar>of_int m / 2 ^ k :: rat\<bar> < 2 ^ 1024" .
qed

lemma round64_numeral:
  "(numeral n :: int) \<le> 2 ^ 53 \<Longrightarrow> round64 (numeral n) = Fin (numeral n)"
  using round64_dyadicI [of "numeral n" 0] by simp

lemma round64_one [simp]: "round64 1 = Fin 1"
  using round64_dyadicI [of 1 0] by simp

lemma round64_hundredth:
  "round64 (1 / 100) = Fin (5764607523034235 / 576460752303423488)"
  using round64_nearI [of "- 7" "1 / 100" "- 59" 5764607523034235] by simp

lemma round64_neg_hundredth:
  "round64 (- (1 / 100)) = Fin (- (5764607523034235 / 576460752303423488))"
  using round64_nearI [of "- 7" "- (1 / 100)" "- 59" "- 5764607523034235"] by simp

lemma round64_49_hundredths:
  "round64 (49 / 100) = Fin (2206763817411543 / 4503599627370496)"
  using round64_nearI [of "- 2" "49 / 100" "- 54" 8827055269646172] by simp

lemma round_half_even_numeral [simp]:
  "round_half_even (numeral n) = numeral n"
  "round_half_even (- numeral n) = - numeral n"
  using round_half_even_of_int [of "numeral n"] round_half_even_of_int [of "- numeral n"]
  by simp_all

lemma round_half_even_tie:
  "round_half_even (of_int n + 1 / 2) = (if even n then n else n + 1)"
proof -
  have "\<lfloor>(of_int n :: rat) + 1 / 2\<rfloor> = n" by (rule floor_unique) simp_all
  then show ?thesis by (simp add: round_half_even_def)
qed

text \<open>The function on the inputs used below.\<close>

lemmas totals_unfold =
  calculate_invoice_totals_def add_product_def finish_totals_def py_float_of_int_def
  fsub_def Let_def gross_total_def

lemma run_half_way:
  "accumulate [line_item 1 (4485 / 2) 0 0] (Fin 0, Fin 0, Fin 0) = Inr (Fin (4485 / 2), Fin 0, Fin 0)"
  using round64_dyadicI [of 4485 1]
  by (simp add: totals_unfold line_item_def)

lemma round_half_even_2242_5: "round_half_even (4485 / 2) = 2242"
  using round_half_even_tie [of 2242] by simp

lemma run_spec_scenario:
  "calculate_invoice_totals [line_item 2 1000 5 18] =
     Inr \<lparr>total_taxable_value = Fin 1900, total_cgst = Fin 171, total_sgst = Fin 171,
          total_tax = Fin 342, round_off = Fin 0, final_amount = 2242\<rparr>"
  by (simp add: totals_unfold line_item_def round64_numeral)

lemma run_round_off_example:
  "calculate_invoice_totals [line_item 1 (257 / 256) 0 100] =
     Inr \<lparr>total_taxable_value = Fin 1, total_cgst = Fin (1 / 2), total_sgst = Fin (1 / 2),
          total_tax = Fin 1, round_off = Fin (- (5764607523034235 / 576460752303423488)),
          final_amount = 2\<rparr>"
  using round64_dyadicI [of 257 8] round64_dyadicI [of 6425 7] round64_dyadicI [of 257 9]
    round64_dyadicI [of 257 7] round64_dyadicI [of "- 1" 7] round64_dyadicI [of 1 1]
    round_half_even_eqI [of "257 / 128" 2] round_half_even_eqI [of "6425 / 64" 100]
    round_half_even_eqI [of "6425 / 128" 50] round_half_even_eqI [of "- (25 / 32)" "- 1"]
  by (simp add: totals_unfold line_item_def round64_numeral round64_neg_hundredth)

lemma run_small_tax_example:
  "calculate_invoice_totals [line_item 1 (1 / 2) 0 (25 / 16)] =
     Inr \<lparr>total_taxable_value = Fin (1 / 2), total_cgst = Fin 0, total_sgst = Fin 0,
          total_tax = Fin (5764607523034235 / 576460752303423488),
          round_off = Fin (2206763817411543 / 4503599627370496), final_amount = 1\<rparr>"
  using round64_dyadicI [of 1 1] round64_dyadicI [of 25 5] round64_dyadicI [of 25 6]
    round64_dyadicI [of 1 8] round64_dyadicI [of 1 7] round64_dyadicI [of 65 7]
    round64_dyadicI [of 63 7]
    round_half_even_eqI [of "65 / 128" 1] round_half_even_eqI [of "25 / 64" 0]
    round_half_even_eqI [of "25 / 32" 1] round_half_even_eqI [of "1575 / 32" 49]
  by (simp add: totals_unfold line_item_def round64_numeral round64_hundredth round64_49_hundredths)

lemma round64_two_pow_1024: "round64 (2 * 2 ^ 1023) = PInf"
proof -
  have "dyadic53 (2 * 2 ^ 1023)"
    unfolding dyadic53_def by (intro exI [of _ 1] exI [of _ 1024]) simp
  then show ?thesis by (simp add: round64_overflow)
qed

lemma round64_two_pow_1023: "round64 (2 ^ 1023) = Fin (2 ^ 1023)"
proof (rule round64_exact)
  show "dyadic53 (2 ^ 1023)"
    unfolding dyadic53_def by (intro exI [of _ 1] exI [of _ 1023]) simp
  show "\<bar>2 ^ 1023 :: rat\<bar> < 2 ^ 1024" by simp
qed

lemma run_nan:
  "accumulate [line_item 2 (2 ^ 1023) 0 0] (Fin 0, Fin 0, Fin 0) = Inr (NaN, NaN, NaN)"
  using round64_two_pow_1024
  by (simp add: totals_unfold line_item_def round64_numeral inf_times_def)

lemma run_infinite:
  "accumulate [line_item 1 (2 ^ 1023) 0 0, line_item 1 (2 ^ 1023) 0 0] (Fin 0, Fin 0, Fin 0) =
     Inr (PInf, Fin 0, Fin 0)"
  using round64_two_pow_1024 round64_two_pow_1023
  by (simp add: totals_unfold line_item_def)

lemma run_spec_loop:
  "accumulate [line_item 2 1000 5 18] (Fin 0, Fin 0, Fin 0) = Inr (Fin 1900, Fin 171, Fin 171)"
  by (simp add: totals_unfold line_item_def round64_numeral)

section \<open>Properties of calculate_invoice_totals\<close>

text \<open>
  C1: whenever \<^verbatim>\<open>calculate_invoice_totals\<close> returns, the returned
  \<^verbatim>\<open>total_cgst\<close> and \<^verbatim>\<open>total_sgst\<close> are equal under \<^verbatim>\<open>==\<close>, for any number
  of line items and any rates; their difference is exactly 0, so it is within the
  tolerance 0.01.
\<close>

theorem cgst_equals_sgst:
  assumes "calculate_invoice_totals ps = Inr t"
  shows "py_float_eq (total_cgst t) (total_sgst t) \<and>
         fsub (total_cgst t) (total_sgst t) = Fin 0"
proof -
  from assms obtain c where c: "round64 c = Fin c"
    and t: "total_cgst t = py_round2 (Fin c)" "total_sgst t = py_round2 (Fin c)"
    by (elim totals_Inr) simp
  from c obtain r where "py_round2 (Fin c) = Fin r" using py_round2_finite by blast
  with t show ?thesis by (simp add: py_float_eq_def fsub_def)
qed

theorem cgst_equals_sgst_witness:
  "calculate_invoice_totals [line_item 2 1000 5 18] =
     Inr \<lparr>total_taxable_value = Fin 1900, total_cgst = Fin 171, total_sgst = Fin 171,
          total_tax = Fin 342, round_off = Fin 0, final_amount = 2242\<rparr> \<and>
   py_float_eq (Fin 171) (Fin 171) \<and> fsub (Fin 171) (Fin 171) = Fin 0"
  using run_spec_scenario cgst_equals_sgst [OF run_spec_scenario] by simp

text \<open>
  C2, as stated, relates the returned, rounded fields: \<^verbatim>\<open>round_off\<close> should equal
  \<^verbatim>\<open>final_amount - (total_taxable_value + total_tax)\<close>. For one item of quantity 1,
  unit rate 1.00390625, no discount and GST rate 100 the function returns
  \<^verbatim>\<open>round_off = -0.01\<close> while the returned fields give \<^verbatim>\<open>2 - (1.0 + 1.0) = 0.0\<close>.
\<close>

theorem round_off_not_from_rounded_fields:
  "calculate_invoice_totals [line_item 1 (257 / 256) 0 100] =
     Inr \<lparr>total_taxable_value = Fin 1, total_cgst = Fin (1 / 2), total_sgst = Fin (1 / 2),
          total_tax = Fin 1, round_off = Fin (- (5764607523034235 / 576460752303423488)),
          final_amount = 2\<rparr> \<and>
   \<not> py_float_eq (Fin (- (5764607523034235 / 576460752303423488)))
       (fsub (Fin 2) (fadd (Fin 1) (Fin 1)))"
  using run_round_off_example
  by (simp add: py_float_eq_def fsub_def round64_numeral)

text \<open>
  C2, amended: \<^verbatim>\<open>final_amount\<close> is the integer nearest to the unrounded
  \<^verbatim>\<open>gross_total\<close> (the sum of the running totals before any rounding to two
  decimals), and the returned \<^verbatim>\<open>round_off\<close> is \<^verbatim>\<open>final_amount - gross_total\<close>
  rounded to two decimals.
\<close>

theorem final_amount_nearest_unrounded_gross:
  assumes "calculate_invoice_totals ps = Inr t"
  shows "\<exists>acc g. accumulate ps (Fin 0, Fin 0, Fin 0) = Inr acc \<and> gross_total acc = Fin g \<and>
           final_amount t = round_half_even g \<and>
           (\<forall>k. \<bar>of_int (final_amount t) - g\<bar> \<le> \<bar>of_int k - g\<bar>) \<and>
           round_off t = py_round2 (fsub (Fin (of_int (final_amount t))) (Fin g))"
proof -
  from assms obtain tv c x g where
    acc: "accumulate ps (Fin 0, Fin 0, Fin 0) = Inr (tv, Fin c, Fin c)"
    and g: "fadd (Fin c) (Fin c) = Fin x" "fadd tv (Fin x) = Fin g"
    and t: "final_amount t = round_half_even g"
       "round_off t = py_round2 (fsub (Fin (of_int (round_half_even g))) (Fin g))"
    by (elim totals_Inr) simp
  from g have "gross_total (tv, Fin c, Fin c) = Fin g" by (simp add: gross_total_def)
  with acc t show ?thesis
    by (intro exI [of _ "(tv, Fin c, Fin c)"] exI [of _ g]) (simp add: round_half_even_nearest)
qed

theorem final_amount_nearest_unrounded_gross_witness:
  "calculate_invoice_totals [line_item 1 (257 / 256) 0 100] =
     Inr \<lparr>total_taxable_value = Fin 1, total_cgst = Fin (1 / 2), total_sgst = Fin (1 / 2),
          total_tax = Fin 1, round_off = Fin (- (5764607523034235 / 576460752303423488)),
          final_amount = 2\<rparr> \<and>
   (\<exists>acc g. accumulate [line_item 1 (257 / 256) 0 100] (Fin 0, Fin 0, Fin 0) = Inr acc \<and>
      gross_total acc = Fin g \<and> 2 = round_half_even g \<and>
      (\<forall>k. \<bar>2 - g\<bar> \<le> \<bar>of_int k - g\<bar>) \<and>
      Fin (- (5764607523034235 / 576460752303423488)) = py_round2 (fsub (Fin 2) (Fin g)))"
  using run_round_off_example
    final_amount_nearest_unrounded_gross [OF run_round_off_example]
  by simp

text \<open>
  C3: the returned \<^verbatim>\<open>total_tax\<close> is meant to equal the returned
  \<^verbatim>\<open>total_cgst\<close> plus the returned \<^verbatim>\<open>total_sgst\<close>; the code forms the sum
  before rounding and rounds the three fields separately. For one item of quantity 1,
  unit rate 0.5, no discount and GST rate 1.5625 each half is 0.00390625 and is returned
  as 0.0, while their sum 0.0078125 is returned as 0.01: the fields are not equal, and
  the relation of the repository's test, \<^verbatim>\<open>abs(total_tax - (total_cgst + total_sgst))
  < 0.01\<close>, is false of them.
\<close>

theorem total_tax_not_sum_of_rounded_halves:
  "calculate_invoice_totals [line_item 1 (1 / 2) 0 (25 / 16)] =
     Inr \<lparr>total_taxable_value = Fin (1 / 2), total_cgst = Fin 0, total_sgst = Fin 0,
          total_tax = Fin (5764607523034235 / 576460752303423488),
          round_off = Fin (2206763817411543 / 4503599627370496), final_amount = 1\<rparr> \<and>
   \<not> py_float_eq (Fin (5764607523034235 / 576460752303423488)) (fadd (Fin 0) (Fin 0)) \<and>
   \<not> tax_calc_correct
       \<lparr>total_taxable_value = Fin (1 / 2), total_cgst = Fin 0, total_sgst = Fin 0,
        total_tax = Fin (5764607523034235 / 576460752303423488),
        round_off = Fin (2206763817411543 / 4503599627370496), final_amount = 1\<rparr>"
  using run_small_tax_example
    round64_nearI [of "- 7" "5764607523034235 / 576460752303423488" "- 59" 5764607523034235]
  by (simp add: py_float_eq_def tax_calc_correct_def fsub_def round64_hundredth)

text \<open>
  C4: \<^verbatim>\<open>final_amount\<close> is \<^verbatim>\<open>round(gross_total)\<close>, the integer nearest to the
  unrounded gross total with ties going to the even integer; in particular a gross total
  of 2242.5 gives 2242, not 2243.
\<close>

theorem final_amount_rounds_half_to_even:
  assumes "accumulate ps (Fin 0, Fin 0, Fin 0) = Inr acc" and "gross_total acc = Fin g"
  shows "(\<exists>t. calculate_invoice_totals ps = Inr t \<and> final_amount t = round_half_even g \<and>
            \<bar>of_int (final_amount t) - g\<bar> \<le> 1 / 2 \<and>
            (\<bar>of_int (final_amount t) - g\<bar> = 1 / 2 \<longrightarrow> even (final_amount t))) \<and>
         py_round (Fin (4485 / 2)) = Inr 2242"
proof -
  from assms obtain t where "calculate_invoice_totals ps = Inr t"
    and "final_amount t = round_half_even g"
    using totals_InrI by blast
  then show ?thesis
    using round_half_even_near [of g] round_half_even_tie_even [of g]
    by (auto simp add: round_half_even_2242_5)
qed

theorem final_amount_rounds_half_to_even_witness:
  "accumulate [line_item 1 (4485 / 2) 0 0] (Fin 0, Fin 0, Fin 0) =
     Inr (Fin (4485 / 2), Fin 0, Fin 0) \<and>
   gross_total (Fin (4485 / 2), Fin 0, Fin 0) = Fin (4485 / 2) \<and>
   (\<exists>t. calculate_invoice_totals [line_item 1 (4485 / 2) 0 0] = Inr t \<and>
      final_amount t = 2242 \<and> even (final_amount t))"
proof -
  have g: "gross_total (Fin (4485 / 2), Fin 0, Fin 0) = Fin (4485 / 2)"
    using round64_dyadicI [of 4485 1] by (simp add: gross_total_def)
  from final_amount_rounds_half_to_even [OF run_half_way g]
  show ?thesis using run_half_way g by (auto simp add: round_half_even_2242_5)
qed

text \<open>
  C5, as stated, says that no numeric input makes \<^verbatim>\<open>calculate_invoice_totals\<close>
  raise. One item of quantity 2 at the finite unit rate \<open>2\<^sup>1\<^sup>0\<^sup>2\<^sup>3\<close> overflows to an
  infinity, the discount becomes a NaN, and \<^verbatim>\<open>round(gross_total)\<close> raises
  \<^verbatim>\<open>ValueError\<close>.
\<close>

theorem totals_raise_on_overflow:
  "calculate_invoice_totals [line_item 2 (2 ^ 1023) 0 0] = Inl ValueError"
  using round64_two_pow_1024
  by (simp add: totals_unfold line_item_def round64_numeral inf_times_def)

text \<open>
  C5, amended: for the empty sequence all totals and \<^verbatim>\<open>final_amount\<close> are 0. If
  some quantity has a magnitude of \<open>2\<^sup>1\<^sup>0\<^sup>2\<^sup>4 - 2\<^sup>9\<^sup>7\<^sup>0\<close> or more (too large for a float),
  the function raises \<^verbatim>\<open>OverflowError\<close>. Otherwise the loop runs through, and the
  function returns when the unrounded gross total is finite, raises \<^verbatim>\<open>ValueError\<close>
  when it is a NaN, and raises \<^verbatim>\<open>OverflowError\<close> when it is an infinity.
\<close>

theorem totals_raise_only_on_overflow:
  "calculate_invoice_totals [] =
     Inr \<lparr>total_taxable_value = Fin 0, total_cgst = Fin 0, total_sgst = Fin 0,
          total_tax = Fin 0, round_off = Fin 0, final_amount = 0\<rparr> \<and>
   ((\<exists>p \<in> set ps. 2 ^ 1024 - 2 ^ 970 \<le> \<bar>quantity p\<bar>) \<longrightarrow>
      calculate_invoice_totals ps = Inl OverflowError) \<and>
   ((\<forall>p \<in> set ps. \<bar>quantity p\<bar> < 2 ^ 1024 - 2 ^ 970) \<longrightarrow>
      (\<exists>acc. accumulate ps (Fin 0, Fin 0, Fin 0) = Inr acc \<and>
         ((\<exists>g. gross_total acc = Fin g) \<longrightarrow> (\<exists>t. calculate_invoice_totals ps = Inr t)) \<and>
         (gross_total acc = NaN \<longrightarrow> calculate_invoice_totals ps = Inl ValueError) \<and>
         (gross_total acc = PInf \<or> gross_total acc = NInf \<longrightarrow>
            calculate_invoice_totals ps = Inl OverflowError)))"
proof (intro conjI impI)
  show "calculate_invoice_totals [] =
     Inr \<lparr>total_taxable_value = Fin 0, total_cgst = Fin 0, total_sgst = Fin 0,
          total_tax = Fin 0, round_off = Fin 0, final_amount = 0\<rparr>"
    by (simp add: calculate_invoice_totals_def finish_totals_def py_float_of_int_def fsub_def
        Let_def)
next
  assume "\<exists>p \<in> set ps. 2 ^ 1024 - 2 ^ 970 \<le> \<bar>quantity p\<bar>"
  then have "\<exists>p \<in> set ps. py_float_of_int (quantity p) = Inl OverflowError"
    by (simp only: py_float_of_int_overflow_iff)
  then have "accumulate ps (Fin 0, Fin 0, Fin 0) = Inl OverflowError"
    by (rule accumulate_overflow)
  then show "calculate_invoice_totals ps = Inl OverflowError"
    by (simp add: calculate_invoice_totals_def)
next
  assume "\<forall>p \<in> set ps. \<bar>quantity p\<bar> < 2 ^ 1024 - 2 ^ 970"
  then have "\<forall>p \<in> set ps. py_float_of_int (quantity p) \<noteq> Inl OverflowError"
    by (simp add: py_float_of_int_overflow_iff not_le)
  then obtain acc where acc: "accumulate ps (Fin 0, Fin 0, Fin 0) = Inr acc"
    using accumulate_converts by blast
  show "\<exists>acc. accumulate ps (Fin 0, Fin 0, Fin 0) = Inr acc \<and>
         ((\<exists>g. gross_total acc = Fin g) \<longrightarrow> (\<exists>t. calculate_invoice_totals ps = Inr t)) \<and>
         (gross_total acc = NaN \<longrightarrow> calculate_invoice_totals ps = Inl ValueError) \<and>
         (gross_total acc = PInf \<or> gross_total acc = NInf \<longrightarrow>
            calculate_invoice_totals ps = Inl OverflowError)"
    using acc totals_by_gross [OF acc] by blast
qed

theorem totals_raise_only_on_overflow_witness:
  "(2 ^ 1024 - 2 ^ 970 \<le> \<bar>quantity (line_item (2 ^ 1024) 1 0 0)\<bar> \<and>
    calculate_invoice_totals [line_item (2 ^ 1024) 1 0 0] = Inl OverflowError) \<and>
   (\<bar>quantity (line_item 2 (2 ^ 1023) 0 0)\<bar> < 2 ^ 1024 - 2 ^ 970 \<and>
    gross_total (NaN, NaN, NaN) = NaN \<and>
    calculate_invoice_totals [line_item 2 (2 ^ 1023) 0 0] = Inl ValueError) \<and>
   (\<bar>quantity (line_item 1 (2 ^ 1023) 0 0)\<bar> < 2 ^ 1024 - 2 ^ 970 \<and>
    gross_total (PInf, Fin 0, Fin 0) = PInf \<and>
    calculate_invoice_totals [line_item 1 (2 ^ 1023) 0 0, line_item 1 (2 ^ 1023) 0 0] =
      Inl OverflowError) \<and>
   (\<bar>quantity (line_item 2 1000 5 18)\<bar> < 2 ^ 1024 - 2 ^ 970 \<and>
    gross_total (Fin 1900, Fin 171, Fin 171) = Fin 2242 \<and>
    (\<exists>t. calculate_invoice_totals [line_item 2 1000 5 18] = Inr t))"
proof -
  have q1: "2 ^ 1024 - 2 ^ 970 \<le> \<bar>quantity (line_item (2 ^ 1024) 1 0 0)\<bar>"
    by (simp add: line_item_def)
  then have "\<exists>p \<in> set [line_item (2 ^ 1024) 1 0 0]. 2 ^ 1024 - 2 ^ 970 \<le> \<bar>quantity p\<bar>"
    by simp
  with totals_raise_only_on_overflow [of "[line_item (2 ^ 1024) 1 0 0]"]
  have r1: "calculate_invoice_totals [line_item (2 ^ 1024) 1 0 0] = Inl OverflowError"
    by blast
  have q2: "\<bar>quantity (line_item 2 (2 ^ 1023) 0 0)\<bar> < 2 ^ 1024 - 2 ^ 970"
    by (simp add: line_item_def)
  have g2: "gross_total (NaN, NaN, NaN) = NaN" by (simp add: gross_total_def)
  from q2 have "\<forall>p \<in> set [line_item 2 (2 ^ 1023) 0 0]. \<bar>quantity p\<bar> < 2 ^ 1024 - 2 ^ 970"
    by simp
  with totals_raise_only_on_overflow [of "[line_item 2 (2 ^ 1023) 0 0]"]
  obtain acc2 where "accumulate [line_item 2 (2 ^ 1023) 0 0] (Fin 0, Fin 0, Fin 0) = Inr acc2"
    and "gross_total acc2 = NaN \<longrightarrow>
      calculate_invoice_totals [line_item 2 (2 ^ 1023) 0 0] = Inl ValueError"
    by blast
  with run_nan g2
  have r2: "calculate_invoice_totals [line_item 2 (2 ^ 1023) 0 0] = Inl ValueError"
    by simp
  have q3: "\<bar>quantity (line_item 1 (2 ^ 1023) 0 0)\<bar> < 2 ^ 1024 - 2 ^ 970"
    by (simp add: line_item_def)
  have g3: "gross_total (PInf, Fin 0, Fin 0) = PInf" by (simp add: gross_total_def)
  from q3 have "\<forall>p \<in> set [line_item 1 (2 ^ 1023) 0 0, line_item 1 (2 ^ 1023) 0 0].
      \<bar>quantity p\<bar> < 2 ^ 1024 - 2 ^ 970"
    by simp
  with totals_raise_only_on_overflow
    [of "[line_item 1 (2 ^ 1023) 0 0, line_item 1 (2 ^ 1023) 0 0]"]
  obtain acc3 where
    "accumulate [line_item 1 (2 ^ 1023) 0 0, line_item 1 (2 ^ 1023) 0 0] (Fin 0, Fin 0, Fin 0) =
       Inr acc3"
    and "gross_total acc3 = PInf \<or> gross_total acc3 = NInf \<longrightarrow>
      calculate_invoice_totals [line_item 1 (2 ^ 1023) 0 0, line_item 1 (2 ^ 1023) 0 0] =
        Inl OverflowError"
    by blast
  with run_infinite g3
  have r3: "calculate_invoice_totals [line_item 1 (2 ^ 1023) 0 0, line_item 1 (2 ^ 1023) 0 0] =
      Inl OverflowError"
    by simp
  have q4: "\<bar>quantity (line_item 2 1000 5 18)\<bar> < 2 ^ 1024 - 2 ^ 970"
    by (simp add: line_item_def)
  have g4: "gross_total (Fin 1900, Fin 171, Fin 171) = Fin 2242"
    by (simp add: gross_total_def round64_numeral)
  from q4 have "\<forall>p \<in> set [line_item 2 1000 5 18]. \<bar>quantity p\<bar> < 2 ^ 1024 - 2 ^ 970"
    by simp
  with totals_raise_only_on_overflow [of "[line_item 2 1000 5 18]"]
  obtain acc4 where "accumulate [line_item 2 1000 5 18] (Fin 0, Fin 0, Fin 0) = Inr acc4"
    and "(\<exists>g. gross_total acc4 = Fin g) \<longrightarrow>
      (\<exists>t. calculate_invoice_totals [line_item 2 1000 5 18] = Inr t)"
    by blast
  with run_spec_loop g4
  have r4: "\<exists>t. calculate_invoice_totals [line_item 2 1000 5 18] = Inr t"
    by simp
  from q1 r1 q2 g2 r2 q3 g3 r3 q4 g4 r4 show ?thesis by (intro conjI)
qed

end
